theory Spec2Isabelle
  imports Complex_Main "HOL-Library.Log_Nat"
begin

section \<open>JavaScript numbers\<close>

text \<open>
  Costs, limits and timestamps are JavaScript numbers: IEEE 754 binary64 values. A finite
  double is a rational \<open>m * 2^e\<close>, and \<open>+\<close> and \<open>-\<close> return the exact result rounded to the
  nearest double, ties to even. \<open>dbl\<close> is that rounding (53 significant bits, gradual
  underflow below \<open>2^-1022\<close>); a decimal literal of the source such as \<open>0.01\<close> denotes
  \<open>dbl (1/100)\<close>. NaN and the infinities are outside the model: a sum is assumed to stay
  below \<open>2^1024\<close>, and \<open>-0\<close> is identified with \<open>0\<close> (the source only tests truthiness
  and order, which do not tell them apart).
\<close>

type_synonym number = rat

definition ilog2 :: "rat \<Rightarrow> int" where
  \<comment> \<open>\<open>\<lfloor>log\<^sub>2 \<bar>x\<bar>\<rfloor>\<close> for \<open>x \<noteq> 0\<close>, from the bit lengths of numerator and denominator\<close>
  "ilog2 x = (let p = fst (quotient_of \<bar>x\<bar>); q = snd (quotient_of \<bar>x\<bar>);
                  e0 = bitlen p - bitlen q
              in if 2 powi e0 \<le> \<bar>x\<bar> then e0 else e0 - 1)"

definition rne :: "rat \<Rightarrow> int" where
  \<comment> \<open>round to the nearest integer, ties to the even one\<close>
  "rne y = (let f = \<lfloor>y\<rfloor>; d = y - of_int f
            in if d < 1/2 then f
               else if 1/2 < d then f + 1
               else if even f then f else f + 1)"

definition expo :: "rat \<Rightarrow> int" where
  "expo x = max (ilog2 x) (- 1022)"

definition ulp :: "rat \<Rightarrow> rat" where
  "ulp x = 2 powi (expo x - 52)"

definition dbl :: "rat \<Rightarrow> number" where
  "dbl x = (if x = 0 then 0 else of_int (rne (x / ulp x)) * ulp x)"

definition num_add :: "number \<Rightarrow> number \<Rightarrow> number" where
  "num_add a b = dbl (a + b)"

definition num_sub :: "number \<Rightarrow> number \<Rightarrow> number" where
  "num_sub a b = dbl (a - b)"

definition num_mul :: "number \<Rightarrow> number \<Rightarrow> number" where
  "num_mul a b = dbl (a * b)"

text \<open>
  Sums of cost estimates stay on the grid of the multiples of \<open>2^-60\<close> (the unit in the
  last place of \<open>0.005\<close>), where rounding can be computed on the integer numerators:
  \<open>roundInt N\<close> is the numerator of \<open>dbl (N / 2^60)\<close> for \<open>N > 0\<close>, and
  \<open>centsSum n C T\<close> the numerator of the running total \<open>T / 2^60\<close> after \<open>n\<close> more
  additions of \<open>C / 2^60\<close>.
\<close>

definition roundInt :: "int \<Rightarrow> int" where
  "roundInt N =
    (let s = bitlen N - 53
     in if s \<le> 0 then N
        else (let D = 2 ^ nat s; q = N div D; r = N mod D
              in (if 2 * r < D then q else if D < 2 * r then q + 1
                  else if even q then q else q + 1) * D))"

fun centsSum :: "nat \<Rightarrow> int \<Rightarrow> int \<Rightarrow> int" where
  "centsSum 0 C T = T"
| "centsSum (Suc n) C T = centsSum n C (roundInt (T + C))"

section \<open>Strings\<close>

text \<open>
  A string is a list of 8-bit code units. \<open>trim\<close> is \<open>String.prototype.trim\<close> on them: it
  strips TAB, LF, VT, FF, CR, SPACE and NBSP from both ends. \<open>split_nl\<close> is
  \<open>split("\n")\<close>; \<open>toLowerCase\<close> lowers the letters A to Z, the only ones a key of the
  tables below can be the image of.
\<close>

definition NL :: char where
  "NL = CHR 0x0A"

definition isTrimChar :: "char \<Rightarrow> bool" where
  "isTrimChar c = (c \<in> set [CHR 0x09, CHR 0x0A, CHR 0x0B, CHR 0x0C, CHR 0x0D, CHR 0x20, CHR 0xA0])"

definition trim :: "string \<Rightarrow> string" where
  "trim s = rev (dropWhile isTrimChar (rev (dropWhile isTrimChar s)))"

fun split_nl :: "string \<Rightarrow> string list" where
  "split_nl [] = [[]]"
| "split_nl (c # cs) =
     (if c = NL then [] # split_nl cs
      else (case split_nl cs of [] \<Rightarrow> [[c]] | l # ls \<Rightarrow> (c # l) # ls))"

definition joinLines :: "string list \<Rightarrow> string" where
  \<comment> \<open>\<open>lines.join("\n")\<close>, for a list with at least one line\<close>
  "joinLines ls = concat (map (\<lambda>l. l @ [NL]) (butlast ls)) @ last ls"

definition lowerChar :: "char \<Rightarrow> char" where
  "lowerChar c = (let n = (of_char c :: nat) in if 65 \<le> n \<and> n \<le> 90 then char_of (n + 32) else c)"

definition toLowerCase :: "string \<Rightarrow> string" where
  "toLowerCase s = map lowerChar s"

definition falsy :: "string option \<Rightarrow> bool" where
  \<comment> \<open>\<open>!s\<close> for an optional string: undefined or empty\<close>
  "falsy s = (case s of None \<Rightarrow> True | Some v \<Rightarrow> v = [])"

section \<open>Data model\<close>

record UsageEntry =
  timestamp :: string
  endpoint :: string
  httpMethod :: string
  estimatedCost :: number

text \<open>
  \<open>JSON.parse\<close> returns any JSON value, and the cast \<open>as UsageEntry\<close> of the ledger
  reader checks nothing: what the aggregator later reads from an entry is a JavaScript
  value. \<open>jsvalue\<close> holds the JSON values (an object as the list of its properties, each
  key once), \<open>undefined\<close>, the value of a property that is not there, and NaN.
  \<open>entryValue e\<close> is the object whose line \<open>logApiCall\<close> writes for the record \<open>e\<close>;
  \<open>isUsageEntry\<close> is the shape that \<open>interface UsageEntry\<close> declares.
\<close>

datatype jsvalue =
    JUndefined
  | JNull
  | JBool bool
  | JNum number
  | JNaN
  | JStr string
  | JArr "jsvalue list"
  | JObj "(string \<times> jsvalue) list"

definition entryValue :: "UsageEntry \<Rightarrow> jsvalue" where
  "entryValue e =
    JObj [(''timestamp'', JStr (timestamp e)), (''endpoint'', JStr (endpoint e)),
          (''method'', JStr (httpMethod e)), (''estimatedCost'', JNum (estimatedCost e))]"

definition isUsageEntry :: "jsvalue \<Rightarrow> bool" where
  "isUsageEntry v =
    (case v of
       JObj props \<Rightarrow>
         (case (map_of props ''timestamp'', map_of props ''endpoint'', map_of props ''method'',
                map_of props ''estimatedCost'') of
            (Some (JStr t), Some (JStr e), Some (JStr m), Some (JNum c)) \<Rightarrow> True
          | _ \<Rightarrow> False)
     | _ \<Rightarrow> False)"

datatype BudgetAction = Block | Warn | Confirm

record BudgetConfig =
  daily :: "number option"
  action :: BudgetAction

record AuthCredential =
  authType :: string
  accessToken :: "string option"
  refreshToken :: "string option"
  expiresAt :: "number option"
  bearerToken :: "string option"
  clientId :: "string option"

record AccountConfig =
  accountName :: string
  auth :: AuthCredential
  userId :: "string option"
  username :: "string option"

record XcConfig =
  defaultAccount :: string
  accounts :: "(string \<times> AccountConfig) list"

record OAuth2Token =
  access_token :: string
  refresh_token :: "string option"
  expires_in :: number

record OAuthFlowResult =
  resAccessToken :: string
  resRefreshToken :: string
  resExpiresAt :: number

record ProcessingInfo =
  state :: "string option"
  checkAfterSecs :: "number option"
  errorMessage :: "string option"

record UploadStatusData =
  dataId :: "string option"
  processingInfo :: "ProcessingInfo option"

record HttpResponse =
  ok :: bool
  status :: nat
  body :: string

text \<open>
  Every failure of the source is \<open>throw new Error(message)\<close>, or \<open>process.exit(1)\<close> after
  a message, or a TypeError of the run time; the constructors carry the data the message
  is built from.
\<close>

datatype error =
    BudgetExceeded number jsvalue number
      \<comment> \<open>"Daily budget $d exceeded (today: $t + $c). Use 'xc budget reset' ..."\<close>
  | TypeError string
      \<comment> \<open>a property read on \<open>null\<close> ("Cannot read properties of null (reading 'p')") or
          a call of a method the value does not have ("x.m is not a function"): the
          name of the property\<close>
  | UserCancelled
      \<comment> \<open>"Cancelled by user."\<close>
  | Unsettled
      \<comment> \<open>the confirmation prompt got no input line: its promise never settles\<close>
  | UnsupportedType string
      \<comment> \<open>"Unsupported file type: <ext>"\<close>
  | FileTooLarge nat string nat
      \<comment> \<open>"File too large (..MB). <category> limit is ..MB.": size, category, limit\<close>
  | NoSuchFile string
      \<comment> \<open>\<open>fs.statSync\<close> on a path that does not exist\<close>
  | UploadInitFailed
      \<comment> \<open>"Failed to initialize upload (no media ID returned)"\<close>
  | NoAccessToken
      \<comment> \<open>"No access token available for chunked upload"\<close>
  | AppendFailed nat nat string
      \<comment> \<open>"APPEND failed (segment i): HTTP status body"\<close>
  | UploadFailed
      \<comment> \<open>"Upload failed (no media ID returned)"\<close>
  | ProcessingFailed string
      \<comment> \<open>"Media processing failed: <message>"\<close>
  | ProcessingTimeout
      \<comment> \<open>"Media processing timed out"\<close>
  | NoAccountConfigured "string option"
  | BearerTokenEmpty
  | NoAccessTokenLogin
  | TokenExpiredNoRefresh
  | UnknownAuthType string
  | InvalidDaily
      \<comment> \<open>"Error: --daily must be a positive number."\<close>
  | InvalidAction
      \<comment> \<open>"Error: --action must be block, warn, or confirm."\<close>
  | Rejected string
      \<comment> \<open>a network operation rejected by the SDK, by \<open>fetch\<close> or by the server\<close>

datatype arg = Str string | Num nat | FileData string

datatype request =
    SdkRequest string string "arg list"
      \<comment> \<open>a method of a namespace of the SDK client: namespace, method, arguments\<close>
  | AppendRequest string string string nat nat nat
      \<comment> \<open>\<open>fetch\<close> POST to \<open>/2/media/upload/<id>/append\<close>: media id, bearer token, file
          path, segment index, offset and length of the chunk\<close>
  | RefreshRequest string string
      \<comment> \<open>the OAuth2 token refresh: client id, refresh token\<close>

datatype diag =
    BudgetWarning number jsvalue number
  | ConfirmQuestion number jsvalue number
  | UploadProgress nat nat
  | ProcessingWait number
  | RefreshingToken
  | MigratedConfig

text \<open>
  The platform and the remote service are parameters: the built-ins the source calls
  (\<open>JSON.parse\<close> of one ledger line, \<open>None\<close> when it throws; \<open>JSON.stringify\<close>;
  \<open>new Date(s).getTime()\<close> for a string, \<open>None\<close> for NaN; the conversions the operators
  \<open>+\<close> and \<open><=\<close> apply to an operand that is no number: \<open>ToString\<close> of a value, and
  \<open>StringToNumber\<close>, \<open>None\<close> for NaN; \<open>toISOString\<close>; \<open>setHours(0,0,0,0)\<close>, the local
  midnight before an instant; \<open>path.extname\<close>) and the answers of the server, each a
  function of the requests sent so far and the request.
\<close>

record env =
  JSON_parse :: "string \<Rightarrow> jsvalue option"
  JSON_stringify :: "UsageEntry \<Rightarrow> string"
  Date_getTime :: "string \<Rightarrow> number option"
  ToString :: "jsvalue \<Rightarrow> string"
  StringToNumber :: "string \<Rightarrow> number option"
  toISOString :: "number \<Rightarrow> string"
  localMidnight :: "number \<Rightarrow> number"
  path_extname :: "string \<Rightarrow> string"
  sdk :: "request list \<Rightarrow> request \<Rightarrow> error + UploadStatusData option"
  fetch :: "request list \<Rightarrow> request \<Rightarrow> error + HttpResponse"
  oauthRefresh :: "request list \<Rightarrow> request \<Rightarrow> error + OAuth2Token"

text \<open>
  The state a command runs in: the files under \<open>~/.xc\<close> (\<open>None\<close>: the file does not
  exist; \<open>budget.json\<close> and \<open>config.json\<close> by their parsed content), the sizes of the
  files on disk, the clock, the lines the operator will type, the diagnostic stream and
  the network operations performed so far.
\<close>

record world =
  usageFile :: "string option"
  budgetFile :: "BudgetConfig option"
  configFile :: "XcConfig option"
  legacyConfigFile :: "XcConfig option"
  statSize :: "string \<Rightarrow> nat option"
  clock :: number
  stdin :: "string list"
  stderr :: "diag list"
  net :: "request list"

type_synonym 'a io = "world \<Rightarrow> (error + 'a) \<times> world"

type_synonym client = "string \<Rightarrow> string \<Rightarrow> arg list \<Rightarrow> (UploadStatusData option) io"

section \<open>cost.ts: the usage ledger and the spend aggregator\<close>

definition COST_MAP :: "(string \<times> number) list" where
  "COST_MAP =
    [(''posts.searchRecent'', dbl (1/100)),
     (''posts.searchAll'', dbl (2/100)),
     (''posts.create'', dbl (1/100)),
     (''users.getMe'', dbl (5/1000)),
     (''users.getByUsername'', dbl (5/1000)),
     (''users.getPosts'', dbl (5/1000)),
     (''users.getTimeline'', dbl (5/1000)),
     (''users.likePost'', dbl (5/1000)),
     (''users.unlikePost'', dbl (5/1000)),
     (''usage.get'', 0)]"

definition DEFAULT_COST :: number where
  "DEFAULT_COST = dbl (5/1000)"

definition METHOD_MAP :: "(string \<times> string) list" where
  "METHOD_MAP =
    [(''posts.create'', ''POST''),
     (''users.likePost'', ''POST''),
     (''users.unlikePost'', ''DELETE'')]"

definition estimateCost :: "string \<Rightarrow> number" where
  "estimateCost ep = (case map_of COST_MAP ep of Some c \<Rightarrow> c | None \<Rightarrow> DEFAULT_COST)"

definition inferMethod :: "string \<Rightarrow> string" where
  "inferMethod ep = (case map_of METHOD_MAP ep of Some m \<Rightarrow> m | None \<Rightarrow> ''GET'')"

definition logApiCall :: "env \<Rightarrow> string \<Rightarrow> world \<Rightarrow> world" where
  "logApiCall P ep w =
    (let entry = \<lparr>timestamp = toISOString P (clock w), endpoint = ep,
                   httpMethod = inferMethod ep, estimatedCost = estimateCost ep\<rparr>;
         old = (case usageFile w of None \<Rightarrow> [] | Some content \<Rightarrow> content)
     in w\<lparr>usageFile := Some (old @ JSON_stringify P entry @ [NL])\<rparr>)"

fun parseLines :: "env \<Rightarrow> string list \<Rightarrow> jsvalue list \<Rightarrow> jsvalue list" where
  "parseLines P [] entries = entries"
| "parseLines P (line # rest) entries =
     (case JSON_parse P line of
        Some e \<Rightarrow> parseLines P rest (entries @ [e])
      | None \<Rightarrow> parseLines P rest entries)"

definition loadUsageLog :: "env \<Rightarrow> world \<Rightarrow> jsvalue list" where
  "loadUsageLog P w =
    (case usageFile w of
       None \<Rightarrow> []
     | Some content \<Rightarrow>
         (let raw = trim content
          in if raw = [] then [] else parseLines P (split_nl raw) []))"

text \<open>
  \<open>computeSpend\<close> is modelled on the argument type its signature declares, a list of
  records; on the objects of records the loop over values below does the same
  (\<open>sumValues_records\<close>).
\<close>

definition inWindow :: "env \<Rightarrow> number \<Rightarrow> UsageEntry \<Rightarrow> bool" where
  \<comment> \<open>\<open>new Date(entry.timestamp).getTime() >= cutoff\<close>, false for NaN\<close>
  "inWindow P cutoff entry =
    (case Date_getTime P (timestamp entry) of None \<Rightarrow> False | Some t \<Rightarrow> cutoff \<le> t)"

fun sumFrom :: "env \<Rightarrow> number \<Rightarrow> UsageEntry list \<Rightarrow> number \<Rightarrow> number" where
  "sumFrom P cutoff [] tot = tot"
| "sumFrom P cutoff (entry # rest) tot =
     sumFrom P cutoff rest
       (if inWindow P cutoff entry then num_add tot (estimatedCost entry) else tot)"

definition computeSpend :: "env \<Rightarrow> number \<Rightarrow> UsageEntry list \<Rightarrow> number \<Rightarrow> number" where
  \<comment> \<open>the second argument is \<open>Date.now()\<close>\<close>
  "computeSpend P now entries windowMs = sumFrom P (num_sub now windowMs) entries 0"

text \<open>
  \<open>computeTodaySpend\<close> is what \<open>checkBudget\<close> applies to the result of \<open>loadUsageLog\<close>,
  whatever the lines of the file have parsed to, so it is modelled on values, with the
  semantics of the operations it performs on them:

    \<^item> \<open>entry.timestamp\<close> and \<open>entry.estimatedCost\<close> (\<open>getProp\<close>) throw a TypeError on
      \<open>null\<close>, give the property of an object, \<open>undefined\<close> when it has none, and
      \<open>undefined\<close> on a number, a string, a boolean and an array;
    \<^item> \<open>new Date(v).getTime()\<close> (\<open>timeOf\<close>) parses a string, and clips the number that
      any other primitive converts to (\<open>undefined\<close> to NaN, \<open>null\<close> to 0): NaN beyond
      \<open>8.64e15\<close>, else truncated to an integer; an array or an object is first converted
      to a string;
    \<^item> \<open>a + b\<close> (\<open>js_plus\<close>) concatenates when an operand is a string, an array or an
      object, and adds the numbers that the operands convert to otherwise;
    \<^item> \<open>a <= d\<close> for a number \<open>d\<close> (\<open>js_le\<close>) compares the number that \<open>a\<close> converts to,
      and is false for NaN.
\<close>

definition getProp :: "jsvalue \<Rightarrow> string \<Rightarrow> error + jsvalue" where
  "getProp v p =
    (case v of
       JNull \<Rightarrow> Inl (TypeError p)
     | JUndefined \<Rightarrow> Inl (TypeError p)
     | JObj props \<Rightarrow> Inr (case map_of props p of None \<Rightarrow> JUndefined | Some x \<Rightarrow> x)
     | _ \<Rightarrow> Inr JUndefined)"

definition toStr :: "env \<Rightarrow> jsvalue \<Rightarrow> string" where
  "toStr P v = (case v of JStr s \<Rightarrow> s | _ \<Rightarrow> ToString P v)"

definition toNumber :: "env \<Rightarrow> jsvalue \<Rightarrow> number option" where
  \<comment> \<open>\<open>None\<close> for NaN\<close>
  "toNumber P v =
    (case v of
       JUndefined \<Rightarrow> None
     | JNull \<Rightarrow> Some 0
     | JBool b \<Rightarrow> Some (if b then 1 else 0)
     | JNum x \<Rightarrow> Some x
     | JNaN \<Rightarrow> None
     | _ \<Rightarrow> StringToNumber P (toStr P v))"

definition isStringy :: "jsvalue \<Rightarrow> bool" where
  \<comment> \<open>the values that \<open>ToPrimitive\<close> turns into a string\<close>
  "isStringy v = (case v of JStr s \<Rightarrow> True | JArr xs \<Rightarrow> True | JObj props \<Rightarrow> True | _ \<Rightarrow> False)"

definition js_plus :: "env \<Rightarrow> jsvalue \<Rightarrow> jsvalue \<Rightarrow> jsvalue" where
  "js_plus P a b =
    (if isStringy a \<or> isStringy b then JStr (toStr P a @ toStr P b)
     else (case (toNumber P a, toNumber P b) of
             (Some x, Some y) \<Rightarrow> JNum (num_add x y)
           | _ \<Rightarrow> JNaN))"

definition js_le :: "env \<Rightarrow> jsvalue \<Rightarrow> number \<Rightarrow> bool" where
  "js_le P a d = (case toNumber P a of None \<Rightarrow> False | Some x \<Rightarrow> x \<le> d)"

definition timeClip :: "number \<Rightarrow> number option" where
  "timeClip x =
    (if 8640000000000000 < \<bar>x\<bar> then None
     else Some (of_int (if 0 \<le> x then \<lfloor>x\<rfloor> else \<lceil>x\<rceil>)))"

definition timeOf :: "env \<Rightarrow> jsvalue \<Rightarrow> number option" where
  "timeOf P v =
    (case v of
       JStr s \<Rightarrow> Date_getTime P s
     | JArr xs \<Rightarrow> Date_getTime P (ToString P v)
     | JObj props \<Rightarrow> Date_getTime P (ToString P v)
     | _ \<Rightarrow> (case toNumber P v of None \<Rightarrow> None | Some x \<Rightarrow> timeClip x))"

fun sumValues :: "env \<Rightarrow> number \<Rightarrow> jsvalue list \<Rightarrow> jsvalue \<Rightarrow> error + jsvalue" where
  "sumValues P cutoff [] tot = Inr tot"
| "sumValues P cutoff (entry # rest) tot =
     (case getProp entry ''timestamp'' of
        Inl e \<Rightarrow> Inl e
      | Inr ts \<Rightarrow>
          if (case timeOf P ts of None \<Rightarrow> False | Some t \<Rightarrow> cutoff \<le> t)
          then (case getProp entry ''estimatedCost'' of
                  Inl e \<Rightarrow> Inl e
                | Inr c \<Rightarrow> sumValues P cutoff rest (js_plus P tot c))
          else sumValues P cutoff rest tot)"

definition computeTodaySpend :: "env \<Rightarrow> number \<Rightarrow> jsvalue list \<Rightarrow> error + jsvalue" where
  "computeTodaySpend P now entries = sumValues P (localMidnight P now) entries (JNum 0)"

definition HOUR :: number where "HOUR = 3600000"
definition DAY :: number where "DAY = 86400000"
definition WEEK :: number where "WEEK = num_mul 7 DAY"
definition MONTH :: number where "MONTH = num_mul 30 DAY"

section \<open>budget.ts: the budget enforcer\<close>

definition loadBudget :: "world \<Rightarrow> BudgetConfig" where
  "loadBudget w = (case budgetFile w of None \<Rightarrow> \<lparr>daily = None, action = Warn\<rparr> | Some b \<Rightarrow> b)"

definition saveBudget :: "BudgetConfig \<Rightarrow> world \<Rightarrow> world" where
  "saveBudget config w = w\<lparr>budgetFile := Some config\<rparr>"

definition resetBudget :: "world \<Rightarrow> world" where
  "resetBudget w = w\<lparr>budgetFile := None\<rparr>"

definition confirmPrompt :: "diag \<Rightarrow> bool io" where
  "confirmPrompt question w =
    (let w1 = w\<lparr>stderr := stderr w @ [question]\<rparr>
     in case stdin w1 of
          [] \<Rightarrow> (Inl Unsettled, w1)
        | answer # rest \<Rightarrow> (Inr (toLowerCase answer = ''y''), w1\<lparr>stdin := rest\<rparr>))"

definition hasToFixed :: "jsvalue \<Rightarrow> bool" where
  \<comment> \<open>\<open>toFixed\<close> is a method of numbers (NaN is one) only\<close>
  "hasToFixed v = (case v of JNum x \<Rightarrow> True | JNaN \<Rightarrow> True | _ \<Rightarrow> False)"

definition checkBudget :: "env \<Rightarrow> string \<Rightarrow> unit io" where
  \<comment> \<open>\<open>!budget.daily\<close> holds for an absent limit and for a limit of 0; the message is
      built, with \<open>todaySpend.toFixed(2)\<close>, before the action is looked at\<close>
  "checkBudget P ep w =
    (let budget = loadBudget w
     in case daily budget of
          None \<Rightarrow> (Inr (), w)
        | Some d \<Rightarrow>
            if d = 0 then (Inr (), w)
            else
              (let entries = loadUsageLog P w
               in case computeTodaySpend P (clock w) entries of
                    Inl e \<Rightarrow> (Inl e, w)
                  | Inr todaySpend \<Rightarrow>
                      (let callCost = estimateCost ep
                       in if js_le P (js_plus P todaySpend (JNum callCost)) d then (Inr (), w)
                          else if \<not> hasToFixed todaySpend then (Inl (TypeError ''toFixed''), w)
                          else
                            (case action budget of
                               Block \<Rightarrow> (Inl (BudgetExceeded d todaySpend callCost), w)
                             | Warn \<Rightarrow>
                                 (Inr (),
                                  w\<lparr>stderr := stderr w @ [BudgetWarning d todaySpend callCost]\<rparr>)
                             | Confirm \<Rightarrow>
                                 (case confirmPrompt (ConfirmQuestion d todaySpend callCost) w of
                                    (Inl e, w1) \<Rightarrow> (Inl e, w1)
                                  | (Inr proceed, w1) \<Rightarrow>
                                      if proceed then (Inr (), w1)
                                      else (Inl UserCancelled, w1))))))"


definition parseAction :: "string \<Rightarrow> BudgetAction option" where
  \<comment> \<open>\<open>VALID_ACTIONS.includes(action)\<close>\<close>
  "parseAction s =
    (if s = ''block'' then Some Block
     else if s = ''warn'' then Some Warn
     else if s = ''confirm'' then Some Confirm
     else None)"

definition budgetSet :: "number option \<Rightarrow> string \<Rightarrow> unit io" where
  \<comment> \<open>\<open>xc budget set --daily <amount> --action <action>\<close>; the first argument is
      \<open>parseFloat(opts.daily)\<close>, \<open>None\<close> for NaN\<close>
  "budgetSet amount act w =
    (case amount of
       None \<Rightarrow> (Inl InvalidDaily, w)
     | Some d \<Rightarrow>
         if d \<le> 0 then (Inl InvalidDaily, w)
         else (case parseAction act of
                 None \<Rightarrow> (Inl InvalidAction, w)
               | Some a \<Rightarrow> (Inr (), saveBudget \<lparr>daily = Some d, action = a\<rparr> w)))"

section \<open>api.ts: the call interceptor\<close>

definition dispatch :: "(request list \<Rightarrow> request \<Rightarrow> error + 'a) \<Rightarrow> request \<Rightarrow> 'a io" where
  \<comment> \<open>one network operation: the request joins the trace, the remote side answers\<close>
  "dispatch remote req w = (remote (net w) req, w\<lparr>net := net w @ [req]\<rparr>)"

definition sdkClient :: "env \<Rightarrow> client" where
  \<comment> \<open>the SDK's \<open>Client\<close>: every method of a namespace performs one request\<close>
  "sdkClient P ns m args = dispatch (sdk P) (SdkRequest ns m args)"

definition wrapClient :: "env \<Rightarrow> client \<Rightarrow> client" where
  "wrapClient P target prop nsProp args w =
    (let ep = prop @ ''.'' @ nsProp
     in case checkBudget P ep w of
          (Inl e, w1) \<Rightarrow> (Inl e, w1)
        | (Inr u, w1) \<Rightarrow> target prop nsProp args (logApiCall P ep w1))"

section \<open>config.ts and oauth.ts: accounts and credentials\<close>

fun assign :: "'k \<Rightarrow> 'v \<Rightarrow> ('k \<times> 'v) list \<Rightarrow> ('k \<times> 'v) list" where
  \<comment> \<open>\<open>obj[k] = v\<close> on an object kept as the list of its properties\<close>
  "assign k v [] = [(k, v)]"
| "assign k v ((k', v') # rest) = (if k' = k then (k, v) # rest else (k', v') # assign k v rest)"

definition migrateConfigIfNeeded :: "world \<Rightarrow> world" where
  "migrateConfigIfNeeded w =
    (if configFile w = None \<and> legacyConfigFile w \<noteq> None
     then w\<lparr>configFile := legacyConfigFile w, stderr := stderr w @ [MigratedConfig]\<rparr>
     else w)"

definition loadConfig :: "world \<Rightarrow> XcConfig \<times> world" where
  "loadConfig w =
    (let w1 = migrateConfigIfNeeded w
     in case configFile w1 of
          None \<Rightarrow> (\<lparr>defaultAccount = ''default'', accounts = []\<rparr>, w1)
        | Some c \<Rightarrow> (c, w1))"

definition saveConfig :: "XcConfig \<Rightarrow> world \<Rightarrow> world" where
  "saveConfig config w = w\<lparr>configFile := Some config\<rparr>"

definition getAccount :: "string option \<Rightarrow> world \<Rightarrow> AccountConfig option \<times> world" where
  "getAccount name w =
    (case loadConfig w of
       (config, w1) \<Rightarrow>
         (let key = (case name of None \<Rightarrow> defaultAccount config | Some n \<Rightarrow> n)
          in (map_of (accounts config) key, w1)))"

definition setAccount :: "string \<Rightarrow> AccountConfig \<Rightarrow> world \<Rightarrow> world" where
  "setAccount name account w =
    (case loadConfig w of
       (config, w1) \<Rightarrow> saveConfig (config\<lparr>accounts := assign name account (accounts config)\<rparr>) w1)"

definition refreshAccessToken :: "env \<Rightarrow> string \<Rightarrow> string \<Rightarrow> OAuthFlowResult io" where
  "refreshAccessToken P cid rt w =
    (case dispatch (oauthRefresh P) (RefreshRequest cid rt) w of
       (Inl e, w1) \<Rightarrow> (Inl e, w1)
     | (Inr tokens, w1) \<Rightarrow>
         (Inr \<lparr>resAccessToken = access_token tokens,
               resRefreshToken = (case refresh_token tokens of None \<Rightarrow> rt | Some r \<Rightarrow> r),
               resExpiresAt = num_add (clock w1) (num_mul (expires_in tokens) 1000)\<rparr>, w1))"

definition getClient :: "env \<Rightarrow> string option \<Rightarrow> client io" where
  "getClient P name w =
    (case getAccount name w of
       (None, w1) \<Rightarrow> (Inl (NoAccountConfigured name), w1)
     | (Some account, w1) \<Rightarrow>
         (let a = auth account
          in if authType a = ''bearer'' then
               (if falsy (bearerToken a) then (Inl BearerTokenEmpty, w1)
                else (Inr (wrapClient P (sdkClient P)), w1))
             else if authType a = ''oauth2'' then
               (if falsy (accessToken a) then (Inl NoAccessTokenLogin, w1)
                else
                  (let exp = (case expiresAt a of None \<Rightarrow> 0 | Some e \<Rightarrow> e)
                   in if num_sub exp 60000 \<le> clock w1 then
                        (case (refreshToken a, clientId a) of
                           (Some rt, Some cid) \<Rightarrow>
                             if rt = [] \<or> cid = [] then (Inl TokenExpiredNoRefresh, w1)
                             else
                               (case refreshAccessToken P cid rt
                                       (w1\<lparr>stderr := stderr w1 @ [RefreshingToken]\<rparr>) of
                                  (Inl e, w2) \<Rightarrow> (Inl e, w2)
                                | (Inr result, w2) \<Rightarrow>
                                    (let updatedAuth =
                                           a\<lparr>accessToken := Some (resAccessToken result),
                                             refreshToken := Some (resRefreshToken result),
                                             expiresAt := Some (resExpiresAt result)\<rparr>;
                                         key = (case name of None \<Rightarrow> ''default'' | Some n \<Rightarrow> n)
                                     in (Inr (wrapClient P (sdkClient P)),
                                         setAccount key (account\<lparr>auth := updatedAuth\<rparr>) w2)))
                         | _ \<Rightarrow> (Inl TokenExpiredNoRefresh, w1))
                      else (Inr (wrapClient P (sdkClient P)), w1)))
             else (Inl (UnknownAuthType (authType a)), w1)))"

section \<open>media.ts: the media upload orchestrator\<close>

definition MIME_MAP :: "(string \<times> string) list" where
  "MIME_MAP =
    [(''.jpg'', ''image/jpeg''),
     (''.jpeg'', ''image/jpeg''),
     (''.png'', ''image/png''),
     (''.gif'', ''image/gif''),
     (''.bmp'', ''image/bmp''),
     (''.webp'', ''image/webp''),
     (''.tiff'', ''image/tiff''),
     (''.mp4'', ''video/mp4''),
     (''.webm'', ''video/webm''),
     (''.mov'', ''video/quicktime''),
     (''.ts'', ''video/mp2t'')]"

definition CATEGORY_MAP :: "(string \<times> string) list" where
  "CATEGORY_MAP =
    [(''.jpg'', ''tweet_image''),
     (''.jpeg'', ''tweet_image''),
     (''.png'', ''tweet_image''),
     (''.bmp'', ''tweet_image''),
     (''.webp'', ''tweet_image''),
     (''.tiff'', ''tweet_image''),
     (''.gif'', ''tweet_gif''),
     (''.mp4'', ''tweet_video''),
     (''.webm'', ''tweet_video''),
     (''.mov'', ''tweet_video''),
     (''.ts'', ''tweet_video'')]"

definition SIZE_LIMITS :: "(string \<times> nat) list" where
  "SIZE_LIMITS =
    [(''tweet_image'', 5 * 1024 * 1024),
     (''tweet_gif'', 15 * 1024 * 1024),
     (''tweet_video'', 512 * 1024 * 1024)]"

definition CHUNK_SIZE :: nat where
  "CHUNK_SIZE = 5 * 1024 * 1024"

definition sleep :: "number \<Rightarrow> world \<Rightarrow> world" where
  \<comment> \<open>\<open>await new Promise((r) => setTimeout(r, ms))\<close>\<close>
  "sleep ms w = w\<lparr>clock := num_add (clock w) ms\<rparr>"

function appendLoop ::
  "env \<Rightarrow> string \<Rightarrow> string \<Rightarrow> string \<Rightarrow> nat \<Rightarrow> nat \<Rightarrow> nat \<Rightarrow> unit io" where
  "appendLoop P mediaId token filePath fileSize segmentIndex bytesRead w =
    (if bytesRead < fileSize then
       (let chunkLen = min CHUNK_SIZE (fileSize - bytesRead)
        in case dispatch (fetch P)
                  (AppendRequest mediaId token filePath segmentIndex bytesRead chunkLen) w of
             (Inl e, w1) \<Rightarrow> (Inl e, w1)
           | (Inr resp, w1) \<Rightarrow>
               if \<not> ok resp
               then (Inl (AppendFailed segmentIndex (status resp) (body resp)), w1)
               else appendLoop P mediaId token filePath fileSize (segmentIndex + 1)
                      (bytesRead + chunkLen)
                      (w1\<lparr>stderr := stderr w1 @ [UploadProgress (bytesRead + chunkLen) fileSize]\<rparr>))
     else (Inr (), w))"
  by pat_completeness auto
termination
  by (relation "measure (\<lambda>(P, mediaId, token, filePath, fileSize, segmentIndex, bytesRead, w).
        fileSize - bytesRead)") (auto simp: CHUNK_SIZE_def)

function pollLoop :: "client \<Rightarrow> string \<Rightarrow> nat \<Rightarrow> nat \<Rightarrow> unit io" where
  "pollLoop cl mediaId maxAttempts i w =
    (if i < maxAttempts then
       (case cl ''media'' ''getUploadStatus'' [Str mediaId, Str ''STATUS''] w of
          (Inl e, w1) \<Rightarrow> (Inl e, w1)
        | (Inr data, w1) \<Rightarrow>
            (case (case data of None \<Rightarrow> None | Some d \<Rightarrow> processingInfo d) of
               None \<Rightarrow> (Inr (), w1)
             | Some info \<Rightarrow>
                 if state info = Some ''succeeded'' then (Inr (), w1)
                 else if state info = Some ''failed'' then
                   (Inl (ProcessingFailed
                           (case errorMessage info of None \<Rightarrow> ''unknown error'' | Some m \<Rightarrow> m)),
                    w1)
                 else
                   (let waitSecs = (case checkAfterSecs info of None \<Rightarrow> 5 | Some secs \<Rightarrow> secs)
                    in pollLoop cl mediaId maxAttempts (i + 1)
                         (sleep (num_mul waitSecs 1000)
                            (w1\<lparr>stderr := stderr w1 @ [ProcessingWait waitSecs]\<rparr>)))))
     else (Inl ProcessingTimeout, w))"
  by pat_completeness auto
termination
  by (relation "measure (\<lambda>(cl, mediaId, maxAttempts, i, w). maxAttempts - i)") auto

declare appendLoop.simps [simp del] pollLoop.simps [simp del]

definition waitForProcessing :: "client \<Rightarrow> string \<Rightarrow> unit io" where
  "waitForProcessing cl mediaId = pollLoop cl mediaId 60 0"

text \<open>
  What a status query can answer, as the polling loop reads it: processing goes on (any
  state but \<open>succeeded\<close> and \<open>failed\<close>: the API's \<open>pending\<close> and \<open>in_progress\<close>),
  has succeeded, or has failed with a message.
\<close>

definition statusRequest :: "string \<Rightarrow> request" where
  "statusRequest mediaId = SdkRequest ''media'' ''getUploadStatus'' [Str mediaId, Str ''STATUS'']"






definition chunkedUpload ::
  "env \<Rightarrow> client \<Rightarrow> string \<Rightarrow> string \<Rightarrow> string \<Rightarrow> string option \<Rightarrow> string io" where
  "chunkedUpload P cl filePath mediaType mediaCategory name w =
    (case statSize w filePath of
       None \<Rightarrow> (Inl (NoSuchFile filePath), w)
     | Some fileSize \<Rightarrow>
         (case cl ''media'' ''initializeUpload'' [Str mediaType, Str mediaCategory, Num fileSize] w of
            (Inl e, w1) \<Rightarrow> (Inl e, w1)
          | (Inr initData, w1) \<Rightarrow>
              (case (case initData of None \<Rightarrow> None | Some d \<Rightarrow> dataId d) of
                 None \<Rightarrow> (Inl UploadInitFailed, w1)
               | Some mediaId \<Rightarrow>
                   if mediaId = [] then (Inl UploadInitFailed, w1)
                   else
                     (case getAccount name w1 of
                        (account, w2) \<Rightarrow>
                          (case (case account of None \<Rightarrow> None | Some acc \<Rightarrow> accessToken (auth acc)) of
                             None \<Rightarrow> (Inl NoAccessToken, w2)
                           | Some token \<Rightarrow>
                               if token = [] then (Inl NoAccessToken, w2)
                               else
                                 (case appendLoop P mediaId token filePath fileSize 0 0 w2 of
                                    (Inl e, w3) \<Rightarrow> (Inl e, w3)
                                  | (Inr u, w3) \<Rightarrow>
                                      (case cl ''media'' ''finalizeUpload'' [Str mediaId] w3 of
                                         (Inl e, w4) \<Rightarrow> (Inl e, w4)
                                       | (Inr finalData, w4) \<Rightarrow>
                                           if mediaCategory = ''tweet_video'' \<or>
                                              (case finalData of None \<Rightarrow> None
                                               | Some d \<Rightarrow> processingInfo d) \<noteq> None
                                           then
                                             (case waitForProcessing cl mediaId w4 of
                                                (Inl e, w5) \<Rightarrow> (Inl e, w5)
                                              | (Inr u', w5) \<Rightarrow> (Inr mediaId, w5))
                                           else (Inr mediaId, w4))))))))"

definition oneShotUpload ::
  "client \<Rightarrow> string \<Rightarrow> string \<Rightarrow> string \<Rightarrow> string io" where
  "oneShotUpload cl filePath mediaType mediaCategory w =
    (case statSize w filePath of
       None \<Rightarrow> (Inl (NoSuchFile filePath), w)
     | Some fileSize \<Rightarrow>
         (case cl ''media'' ''upload'' [FileData filePath, Str mediaType, Str mediaCategory] w of
            (Inl e, w1) \<Rightarrow> (Inl e, w1)
          | (Inr result, w1) \<Rightarrow>
              (case (case result of None \<Rightarrow> None | Some d \<Rightarrow> dataId d) of
                 None \<Rightarrow> (Inl UploadFailed, w1)
               | Some mediaId \<Rightarrow>
                   if mediaId = [] then (Inl UploadFailed, w1) else (Inr mediaId, w1))))"

definition uploadMedia :: "env \<Rightarrow> string \<Rightarrow> string option \<Rightarrow> string io" where
  "uploadMedia P filePath name w =
    (let ext = toLowerCase (path_extname P filePath)
     in case map_of MIME_MAP ext of
          None \<Rightarrow> (Inl (UnsupportedType ext), w)
        | Some mediaType \<Rightarrow>
            (let mediaCategory =
                   (case map_of CATEGORY_MAP ext of Some c \<Rightarrow> c | None \<Rightarrow> ''tweet_image'');
                 sizeLimit =
                   (case map_of SIZE_LIMITS mediaCategory of
                      Some l \<Rightarrow> l | None \<Rightarrow> 5 * 1024 * 1024)
             in case statSize w filePath of
                  None \<Rightarrow> (Inl (NoSuchFile filePath), w)
                | Some fileSize \<Rightarrow>
                    if sizeLimit < fileSize then (Inl (FileTooLarge fileSize mediaCategory sizeLimit), w)
                    else
                      (case getClient P name w of
                         (Inl e, w1) \<Rightarrow> (Inl e, w1)
                       | (Inr cl, w1) \<Rightarrow>
                           if mediaCategory = ''tweet_image''
                           then oneShotUpload cl filePath mediaType mediaCategory w1
                           else chunkedUpload P cl filePath mediaType mediaCategory name w1)))"

section \<open>A concrete platform and state\<close>

text \<open>
  A small instance of the parameters, on which the definitions above run: ledger lines
  are endpoint names (a line without a dot does not parse, except \<open>null\<close>; the line
  \<open>spent-1.99\<close> is a record of cost 1.99), every record carries the time stamp \<open>now\<close>,
  the server accepts every segment, and the third status query reports success.
\<close>

definition demoParse :: "string \<Rightarrow> jsvalue option" where
  "demoParse line =
    (if line = ''null'' then Some JNull
     else if line = ''spent-1.99''
     then Some (entryValue \<lparr>timestamp = ''now'', endpoint = ''posts.searchAll'',
                            httpMethod = ''GET'', estimatedCost = dbl (199/100)\<rparr>)
     else if CHR ''.'' \<in> set line
     then Some (entryValue \<lparr>timestamp = ''now'', endpoint = line, httpMethod = inferMethod line,
                            estimatedCost = estimateCost line\<rparr>)
     else None)"

definition processingData :: "string \<Rightarrow> UploadStatusData option" where
  "processingData st =
    Some \<lparr>dataId = Some ''m1'',
          processingInfo = Some \<lparr>state = Some st, checkAfterSecs = None, errorMessage = None\<rparr>\<rparr>"

definition demoSdk :: "request list \<Rightarrow> request \<Rightarrow> error + UploadStatusData option" where
  "demoSdk history req =
    (if req = statusRequest ''m1''
     then (if length (filter (\<lambda>r. r = statusRequest ''m1'') history) < 2
           then Inr (processingData ''in_progress'')
           else Inr (processingData ''succeeded''))
     else Inr (Some \<lparr>dataId = Some ''m1'', processingInfo = None\<rparr>))"

definition demoEnv :: env where
  "demoEnv =
    \<lparr>JSON_parse = demoParse,
     JSON_stringify = endpoint,
     Date_getTime = (\<lambda>s. if s = ''now'' then Some 1800000000000
                         else if s = ''old'' then Some 1799992800000 else None),
     ToString = (\<lambda>v. ''[object Object]''),
     StringToNumber = (\<lambda>s. None),
     toISOString = (\<lambda>t. ''now''),
     localMidnight = (\<lambda>t. 1799996400000),
     path_extname = (\<lambda>p. CHR ''.'' # rev (takeWhile (\<lambda>c. c \<noteq> CHR ''.'') (rev p))),
     sdk = demoSdk,
     fetch = (\<lambda>history req. Inr \<lparr>ok = True, status = 200, body = []\<rparr>),
     oauthRefresh = (\<lambda>history req. Inl (Rejected ''offline''))\<rparr>"

definition demoAccount :: AccountConfig where
  "demoAccount =
    \<lparr>accountName = ''default'',
     auth = \<lparr>authType = ''oauth2'', accessToken = Some ''token'', refreshToken = None,
             expiresAt = Some 1800003600000, bearerToken = None, clientId = None\<rparr>,
     userId = None, username = None\<rparr>"

definition demoWorld :: world where
  "demoWorld =
    \<lparr>usageFile = None,
     budgetFile = None,
     configFile = Some \<lparr>defaultAccount = ''default'', accounts = [(''default'', demoAccount)]\<rparr>,
     legacyConfigFile = None,
     statSize = (\<lambda>p. if p = ''clip.mp4'' then Some (20 * 1024 * 1024)
                     else if p = ''huge.mp4'' then Some (600 * 1024 * 1024)
                     else if p = ''pic.png'' then Some (4 * 1024 * 1024)
                     else None),
     clock = 1800000000000,
     stdin = [],
     stderr = [],
     net = []\<rparr>"

definition spentWorld :: world where
  \<comment> \<open>1.99 spent today, under a daily limit of 2.00 that blocks\<close>
  "spentWorld =
    demoWorld\<lparr>usageFile := Some (''spent-1.99'' @ [NL]),
              budgetFile := Some \<lparr>daily = Some 2, action = Block\<rparr>\<rparr>"




definition zeroLimitWorld :: world where
  "zeroLimitWorld = spentWorld\<lparr>budgetFile := Some \<lparr>daily = Some 0, action = Block\<rparr>\<rparr>"

definition offlineEnv :: env where
  \<comment> \<open>the server refuses every SDK request\<close>
  "offlineEnv = demoEnv\<lparr>sdk := (\<lambda>history req. Inl (Rejected ''HTTP 503''))\<rparr>"



definition corruptWorld :: world where
  \<comment> \<open>a ledger with a malformed line between two records\<close>
  "corruptWorld =
    demoWorld\<lparr>usageFile :=
      Some (concat (map (\<lambda>l. l @ [NL]) [''posts.create'', ''{timestamp:2026-11-0'', ''users.getMe'']))\<rparr>"

definition oddWorld :: world where
  \<comment> \<open>a ledger with the line \<open>null\<close>, which is JSON, between two records\<close>
  "oddWorld =
    demoWorld\<lparr>usageFile :=
      Some (concat (map (\<lambda>l. l @ [NL]) [''posts.create'', ''null'', ''users.getMe'']))\<rparr>"

definition demoEntries :: "UsageEntry list" where
  "demoEntries =
    [\<lparr>timestamp = ''old'', endpoint = ''posts.searchAll'', httpMethod = ''GET'',
      estimatedCost = dbl (2/100)\<rparr>,
     \<lparr>timestamp = ''garbled'', endpoint = ''posts.create'', httpMethod = ''POST'',
      estimatedCost = dbl (1/100)\<rparr>,
     \<lparr>timestamp = ''now'', endpoint = ''users.getMe'', httpMethod = ''GET'',
      estimatedCost = dbl (5/1000)\<rparr>]"

section \<open>Rounding to the nearest double\<close>

lemma pow2_nat_powi: "0 \<le> k \<Longrightarrow> (2::rat) ^ nat k = 2 powi k"
  by (simp add: power_int_def)

lemma pow2_bitlen:
  assumes "0 < (p::int)"
  shows "(2::rat) powi (bitlen p - 1) \<le> of_int p" and "of_int p < (2::rat) powi (bitlen p)"
proof -
  have b: "1 \<le> bitlen p" using assms by (auto simp: bitlen_alt_def)
  from bitlen_bounds [OF assms]
  have "(2::int) ^ nat (bitlen p - 1) \<le> p" and "p < 2 ^ nat (bitlen p)" by auto
  then have "(of_int ((2::int) ^ nat (bitlen p - 1)) :: rat) \<le> of_int p"
    and "(of_int p :: rat) < of_int (2 ^ nat (bitlen p))"
    by (simp_all only: of_int_le_iff of_int_less_iff)
  then show "(2::rat) powi (bitlen p - 1) \<le> of_int p" and "of_int p < (2::rat) powi (bitlen p)"
    using b by (simp_all add: power_int_def)
qed

lemma ilog2_bounds:
  assumes "x \<noteq> 0"
  shows "2 powi (ilog2 x) \<le> \<bar>x\<bar>" and "\<bar>x\<bar> < 2 powi (ilog2 x + 1)"
proof -
  obtain p q where pq: "quotient_of \<bar>x\<bar> = (p, q)" by (cases "quotient_of \<bar>x\<bar>")
  have q: "0 < q" using pq quotient_of_denom_pos by blast
  have x: "\<bar>x\<bar> = of_int p / of_int q" using pq quotient_of_div by blast
  have p: "0 < p" using x q assms
  proof -
    have "0 < \<bar>x\<bar>" using assms by simp
    then have "0 < (of_int p :: rat) / of_int q" using x by simp
    then show ?thesis using q by (simp add: zero_less_divide_iff)
  qed
  define bp where "bp = bitlen p"
  define bq where "bq = bitlen q"
  have bp1: "1 \<le> bp" and bq1: "1 \<le> bq" using p q by (auto simp: bp_def bq_def bitlen_alt_def)
  have P: "(2::rat) powi (bp - 1) \<le> of_int p" "of_int p < (2::rat) powi bp"
    using pow2_bitlen [OF p] by (simp_all add: bp_def)
  have Q: "(2::rat) powi (bq - 1) \<le> of_int q" "of_int q < (2::rat) powi bq"
    using pow2_bitlen [OF q] by (simp_all add: bq_def)
  have qpos: "(0::rat) < of_int q" using q by simp
  have "of_int p < (2::rat) powi (bp - bq + 1) * 2 powi (bq - 1)"
    using P(2) by (simp add: power_int_add [symmetric])
  also have "\<dots> \<le> 2 powi (bp - bq + 1) * of_int q"
    using Q(1) by (simp add: mult_left_mono)
  finally have up: "\<bar>x\<bar> < 2 powi (bp - bq + 1)"
    using qpos by (simp add: x pos_divide_less_eq)
  have "(2::rat) powi (bp - bq - 1) * of_int q \<le> 2 powi (bp - bq - 1) * 2 powi bq"
    using Q(2) by (simp add: mult_left_mono)
  also have "\<dots> = 2 powi (bp - 1)"
    by (simp add: power_int_add [symmetric])
  also have "\<dots> \<le> of_int p" using P(1) .
  finally have lo: "2 powi (bp - bq - 1) \<le> \<bar>x\<bar>"
    using qpos by (simp add: x pos_le_divide_eq)
  have e: "ilog2 x = (if 2 powi (bp - bq) \<le> \<bar>x\<bar> then bp - bq else bp - bq - 1)"
    by (simp add: ilog2_def pq bp_def bq_def Let_def)
  show "2 powi (ilog2 x) \<le> \<bar>x\<bar>" using lo by (simp add: e)
  show "\<bar>x\<bar> < 2 powi (ilog2 x + 1)" using up by (auto simp add: e)
qed


lemma powi2_less_D: "(2::rat) powi a < 2 powi b \<Longrightarrow> a < b"
  using power_int_increasing [of b a "2::rat"] by (cases "a < b") auto

lemma powi2_mono: "a \<le> b \<Longrightarrow> (2::rat) powi a \<le> 2 powi b"
  by (rule power_int_increasing) simp_all

lemma ilog2_unique:
  assumes "2 powi e \<le> \<bar>x\<bar>" and "\<bar>x\<bar> < 2 powi (e + 1)"
  shows "ilog2 x = e"
proof -
  have "(0::rat) < 2 powi e" by simp
  then have "0 < \<bar>x\<bar>" using assms(1) by linarith
  then have x0: "x \<noteq> 0" by simp
  have "(2::rat) powi e < 2 powi (ilog2 x + 1)"
    using assms(1) ilog2_bounds(2) [OF x0] by simp
  then have a: "e < ilog2 x + 1" by (rule powi2_less_D)
  have "(2::rat) powi (ilog2 x) < 2 powi (e + 1)"
    using assms(2) ilog2_bounds(1) [OF x0] by simp
  then have b: "ilog2 x < e + 1" by (rule powi2_less_D)
  from a b show ?thesis by simp
qed

lemma ilog2_mono:
  assumes "x \<noteq> 0" and "\<bar>x\<bar> \<le> \<bar>y\<bar>"
  shows "ilog2 x \<le> ilog2 y"
proof -
  have y0: "y \<noteq> 0" using assms by auto
  have "(2::rat) powi (ilog2 x) < 2 powi (ilog2 y + 1)"
    using ilog2_bounds(1) [OF assms(1)] ilog2_bounds(2) [OF y0] assms(2) by simp
  then have "ilog2 x < ilog2 y + 1" by (rule powi2_less_D)
  then show ?thesis by simp
qed

lemma ilog2_minus: "ilog2 (- x) = ilog2 x"
  by (simp add: ilog2_def)

lemma ulp_minus: "ulp (- x) = ulp x"
  by (simp add: ulp_def expo_def ilog2_minus)

lemma ulp_pos: "0 < ulp x"
  by (simp add: ulp_def)

lemma rne_of_int: "rne (of_int n) = n"
  by (simp add: rne_def)

lemma rne_bounds: "of_int (rne y) - 1/2 \<le> y" "y \<le> of_int (rne y) + 1/2"
  unfolding rne_def Let_def by (auto; linarith)+

lemma rne_range: "\<lfloor>y\<rfloor> \<le> rne y" "rne y \<le> \<lfloor>y\<rfloor> + 1"
  by (simp_all add: rne_def Let_def)

lemma rne_mono:
  assumes "a \<le> b"
  shows "rne a \<le> rne b"
proof (cases "\<lfloor>a\<rfloor> = \<lfloor>b\<rfloor>")
  case True
  have "a - of_int \<lfloor>b\<rfloor> \<le> b - of_int \<lfloor>b\<rfloor>" using assms by simp
  then show ?thesis by (auto simp: rne_def Let_def True)
next
  case False
  then have "\<lfloor>a\<rfloor> < \<lfloor>b\<rfloor>" using floor_mono [OF assms] by simp
  then have "rne a \<le> \<lfloor>b\<rfloor>" using rne_range(2) [of a] by simp
  then show ?thesis using rne_range(1) [of b] by simp
qed

lemma rne_minus: "rne (- y) = - rne y"
proof (cases "y = of_int \<lfloor>y\<rfloor>")
  case True
  then have "- y = of_int (- \<lfloor>y\<rfloor>)" by simp
  then have "rne (- y) = - \<lfloor>y\<rfloor>" by (simp only: rne_of_int)
  moreover have "rne y = \<lfloor>y\<rfloor>" using True rne_of_int by metis
  ultimately show ?thesis by simp
next
  case False
  define f where "f = \<lfloor>y\<rfloor>"
  define d where "d = y - of_int f"
  have d: "0 < d" "d < 1" using False by (auto simp: d_def f_def) linarith+
  have fl: "\<lfloor>- y\<rfloor> = - f - 1"
    by (rule floor_unique) (use d in \<open>auto simp: d_def\<close>)
  have y: "y = of_int f + d" by (simp add: d_def)
  show ?thesis
    unfolding rne_def Let_def fl f_def [symmetric]
    using d by (auto simp: y)
qed


lemma ulp_expo: "ulp x = 2 powi (expo x - 52)"
  by (simp add: ulp_def)

lemma powi2_add: "(2::rat) powi (a + b) = 2 powi a * 2 powi b"
  by (simp add: power_int_add)

lemma ulp_53: "2 powi (expo x + 1) = of_int (2 ^ 53) * ulp x"
proof -
  have "expo x + 1 = 53 + (expo x - 52)" by simp
  then have "(2::rat) powi (expo x + 1) = 2 powi (53 + (expo x - 52))" by (rule arg_cong)
  also have "\<dots> = 2 powi 53 * 2 powi (expo x - 52)" by (simp only: powi2_add)
  finally show ?thesis by (simp add: ulp_expo)
qed

lemma ulp_52: "2 powi (expo x) = of_int (2 ^ 52) * ulp x"
proof -
  have "expo x = 52 + (expo x - 52)" by simp
  then have "(2::rat) powi (expo x) = 2 powi (52 + (expo x - 52))" by (rule arg_cong)
  also have "\<dots> = 2 powi 52 * 2 powi (expo x - 52)" by (simp only: powi2_add)
  finally show ?thesis by (simp add: ulp_expo)
qed

lemma dbl_zero: "dbl 0 = 0"
  by (simp add: dbl_def)

lemma dbl_minus: "dbl (- x) = - dbl x"
  by (simp add: dbl_def ulp_minus rne_minus)

lemma dbl_alt: "dbl x = of_int (rne (x / ulp x)) * ulp x"
  by (simp add: dbl_def rne_def)

lemma dbl_nonneg:
  assumes "0 \<le> x"
  shows "0 \<le> dbl x"
proof -
  have "0 \<le> x / ulp x" using assms ulp_pos [of x] by simp
  then have "rne 0 \<le> rne (x / ulp x)" by (rule rne_mono)
  then have "0 \<le> rne (x / ulp x)" using rne_of_int [of 0] by simp
  then show ?thesis using ulp_pos [of x] by (simp add: dbl_alt)
qed

lemma dbl_upper:
  assumes "0 < x"
  shows "dbl x \<le> 2 powi (expo x + 1)"
proof -
  have x0: "x \<noteq> 0" using assms by simp
  have "x < 2 powi (ilog2 x + 1)" using ilog2_bounds(2) [OF x0] assms by simp
  also have "\<dots> \<le> 2 powi (expo x + 1)" by (rule powi2_mono) (simp add: expo_def)
  also have "\<dots> = of_int (2 ^ 53) * ulp x" by (rule ulp_53)
  finally have "x / ulp x \<le> of_int (2 ^ 53)"
    using ulp_pos [of x] by (simp only: pos_divide_le_eq)
  then have "rne (x / ulp x) \<le> rne (of_int (2 ^ 53))" by (rule rne_mono)
  then have "rne (x / ulp x) \<le> 2 ^ 53" by (simp only: rne_of_int)
  then have "(of_int (rne (x / ulp x)) :: rat) \<le> of_int (2 ^ 53)" by (simp only: of_int_le_iff)
  then have "dbl x \<le> of_int (2 ^ 53) * ulp x"
    using ulp_pos [of x] by (simp only: dbl_alt mult_le_cancel_right_pos)
  also have "\<dots> = 2 powi (expo x + 1)" by (rule ulp_53 [symmetric])
  finally show ?thesis .
qed

lemma dbl_lower:
  assumes "0 < x" and "- 1022 \<le> ilog2 x"
  shows "2 powi (expo x) \<le> dbl x"
proof -
  have x0: "x \<noteq> 0" using assms by simp
  have e: "expo x = ilog2 x" using assms(2) by (simp add: expo_def)
  have "of_int (2 ^ 52) * ulp x = 2 powi (expo x)" by (rule ulp_52 [symmetric])
  also have "\<dots> \<le> x" using ilog2_bounds(1) [OF x0] assms(1) by (simp add: e)
  finally have "of_int (2 ^ 52) \<le> x / ulp x"
    using ulp_pos [of x] by (simp only: pos_le_divide_eq)
  then have "rne (of_int (2 ^ 52)) \<le> rne (x / ulp x)" by (rule rne_mono)
  then have "2 ^ 52 \<le> rne (x / ulp x)" by (simp only: rne_of_int)
  then have "(of_int (2 ^ 52) :: rat) \<le> of_int (rne (x / ulp x))" by (simp only: of_int_le_iff)
  then have "of_int (2 ^ 52) * ulp x \<le> dbl x"
    using ulp_pos [of x] by (simp only: dbl_alt mult_le_cancel_right_pos)
  then show ?thesis by (simp only: ulp_52)
qed

lemma dbl_mono_pos:
  assumes "0 < x" and "x \<le> y"
  shows "dbl x \<le> dbl y"
proof -
  have y: "0 < y" using assms by simp
  have "ilog2 x \<le> ilog2 y" using assms by (intro ilog2_mono) auto
  then have le: "expo x \<le> expo y" by (simp add: expo_def)
  show ?thesis
  proof (cases "expo x = expo y")
    case True
    then have u: "ulp x = ulp y" by (simp add: ulp_expo)
    have "x / ulp y \<le> y / ulp y" using assms(2) ulp_pos [of y] by (simp add: divide_right_mono)
    then have "rne (x / ulp y) \<le> rne (y / ulp y)" by (rule rne_mono)
    then have "(of_int (rne (x / ulp y)) :: rat) \<le> of_int (rne (y / ulp y))"
      by (simp only: of_int_le_iff)
    then show ?thesis using ulp_pos [of y] by (simp only: dbl_alt u mult_le_cancel_right_pos)
  next
    case False
    then have lt: "expo x + 1 \<le> expo y" using le by simp
    then have "- 1022 \<le> ilog2 y" by (simp add: expo_def)
    then have "2 powi (expo y) \<le> dbl y" using y by (intro dbl_lower)
    moreover have "dbl x \<le> 2 powi (expo x + 1)" using assms(1) by (rule dbl_upper)
    moreover have "(2::rat) powi (expo x + 1) \<le> 2 powi (expo y)" using lt by (rule powi2_mono)
    ultimately show ?thesis by simp
  qed
qed

lemma dbl_mono:
  assumes "x \<le> y"
  shows "dbl x \<le> dbl y"
proof -
  consider "0 < x" | "x \<le> 0" "0 \<le> y" | "y < 0" using assms by linarith
  then show ?thesis
  proof cases
    case 1
    then show ?thesis using assms by (rule dbl_mono_pos)
  next
    case 2
    have "0 \<le> dbl (- x)" using 2(1) by (intro dbl_nonneg) simp
    then have "dbl x \<le> 0" by (simp add: dbl_minus)
    moreover have "0 \<le> dbl y" using 2(2) by (rule dbl_nonneg)
    ultimately show ?thesis by simp
  next
    case 3
    have "dbl (- y) \<le> dbl (- x)" using 3 assms by (intro dbl_mono_pos) auto
    then show ?thesis by (simp add: dbl_minus)
  qed
qed


lemma expo_ge: "- 1022 \<le> expo x"
  by (simp add: expo_def)

lemma dbl_grid:
  assumes "y = of_int n * u" and "ulp y = u"
  shows "dbl y = y"
proof -
  have u: "0 < u" using ulp_pos [of y] assms(2) by simp
  have "y / u = of_int n" using u by (simp add: assms(1))
  then have "rne (y / ulp y) = n" by (simp only: assms(2) rne_of_int)
  then have "dbl y = of_int n * u" by (simp only: dbl_alt assms(2))
  then show ?thesis by (simp only: assms(1) [symmetric])
qed

lemma dbl_idem_pos:
  assumes "0 < x"
  shows "dbl (dbl x) = dbl x"
proof -
  define n where "n = rne (x / ulp x)"
  define y where "y = dbl x"
  have y: "y = of_int n * ulp x" by (simp add: y_def n_def dbl_alt)
  have y0: "0 \<le> y" unfolding y_def using assms by (intro dbl_nonneg) simp
  have up: "y \<le> 2 powi (expo x + 1)" unfolding y_def using assms by (rule dbl_upper)
  consider "y = 0" | "y = 2 powi (expo x + 1)" | "0 < y" "y < 2 powi (expo x + 1)"
    using y0 up by linarith
  then have "dbl y = y"
  proof cases
    case 1
    then show ?thesis by (simp add: dbl_zero)
  next
    case 2
    have "ilog2 y = expo x + 1"
    proof (rule ilog2_unique)
      show "2 powi (expo x + 1) \<le> \<bar>y\<bar>" using 2 by simp
      have "(2::rat) powi (expo x + 1) < 2 powi (expo x + 1 + 1)"
        by (rule power_int_strict_increasing) simp_all
      then show "\<bar>y\<bar> < 2 powi (expo x + 1 + 1)" using 2 by simp
    qed
    then have ey: "expo y = expo x + 1" using expo_ge [of x] by (simp add: expo_def)
    have a: "(2::rat) powi (expo y) = 2 powi (expo x + 1)" by (simp only: ey)
    have "y = 2 powi (expo y)" by (rule trans [OF 2 a [symmetric]])
    also have "\<dots> = of_int (2 ^ 52) * ulp y" by (rule ulp_52)
    finally show ?thesis by (rule dbl_grid) simp
  next
    case 3
    have y0': "y \<noteq> 0" using 3(1) by simp
    have "2 powi (ilog2 y) < (2::rat) powi (expo x + 1)"
      using ilog2_bounds(1) [OF y0'] 3 by simp
    then have le: "ilog2 y \<le> expo x" using powi2_less_D by fastforce
    have ge: "expo x \<le> expo y"
    proof (cases "- 1022 \<le> ilog2 x")
      case True
      then have "2 powi (expo x) \<le> y" unfolding y_def using assms by (intro dbl_lower)
      then have "(2::rat) powi (expo x) < 2 powi (ilog2 y + 1)"
        using ilog2_bounds(2) [OF y0'] 3(1) by simp
      then have "expo x < ilog2 y + 1" by (rule powi2_less_D)
      then show ?thesis by (simp add: expo_def)
    next
      case False
      then show ?thesis by (simp add: expo_def)
    qed
    have "expo y = expo x" using le ge expo_ge [of x] by (simp add: expo_def)
    then have "ulp y = ulp x" by (simp add: ulp_expo)
    with y show ?thesis by (rule dbl_grid)
  qed
  then show ?thesis by (simp add: y_def)
qed

lemma dbl_idem: "dbl (dbl x) = dbl x"
proof -
  consider "0 < x" | "x = 0" | "x < 0" by linarith
  then show ?thesis
  proof cases
    case 1
    then show ?thesis by (rule dbl_idem_pos)
  next
    case 2
    then show ?thesis by (simp add: dbl_zero)
  next
    case 3
    then have "dbl (dbl (- x)) = dbl (- x)" by (intro dbl_idem_pos) simp
    then show ?thesis by (simp add: dbl_minus)
  qed
qed

section \<open>Spend over a window grows with the window\<close>

lemma sumFrom_mono:
  assumes "\<forall>e \<in> set entries. 0 \<le> estimatedCost e"
    and "c2 \<le> c1" and "t1 \<le> t2" and "dbl t1 = t1"
  shows "sumFrom P c1 entries t1 \<le> sumFrom P c2 entries t2"
  using assms
proof (induction entries arbitrary: t1 t2)
  case Nil
  then show ?case by simp
next
  case (Cons e rest)
  let ?c = "estimatedCost e"
  let ?t1 = "if inWindow P c1 e then num_add t1 ?c else t1"
  let ?t2 = "if inWindow P c2 e then num_add t2 ?c else t2"
  have c: "0 \<le> ?c" using Cons.prems(1) by simp
  have imp: "inWindow P c1 e \<Longrightarrow> inWindow P c2 e"
    using Cons.prems(2) by (auto simp: inWindow_def split: option.splits)
  have le: "?t1 \<le> ?t2"
  proof (cases "inWindow P c2 e")
    case False
    then show ?thesis using imp Cons.prems(3) by auto
  next
    case in2: True
    show ?thesis
    proof (cases "inWindow P c1 e")
      case True
      have "dbl (t1 + ?c) \<le> dbl (t2 + ?c)" using Cons.prems(3) by (intro dbl_mono) simp
      then show ?thesis using True in2 by (simp add: num_add_def)
    next
      case False
      have "dbl t1 \<le> dbl (t2 + ?c)" using Cons.prems(3) c by (intro dbl_mono) simp
      then show ?thesis using False in2 Cons.prems(4) by (simp add: num_add_def)
    qed
  qed
  have idem: "dbl ?t1 = ?t1" using Cons.prems(4) by (simp add: num_add_def dbl_idem)
  have "sumFrom P c1 rest ?t1 \<le> sumFrom P c2 rest ?t2"
    using Cons.prems(1,2) le idem by (intro Cons.IH) auto
  then show ?case by simp
qed

text \<open>
  C8. For records of non-negative cost and windows \<open>W1 \<le> W2\<close>, the spend over the last
  \<open>W1\<close> milliseconds is at most the spend over the last \<open>W2\<close>, both taken at the same
  \<open>now\<close>. The sums are the rounded sums the source computes, in ledger order; the
  windows need not be non-negative.
\<close>

theorem computeSpend_window_mono:
  assumes "\<forall>e \<in> set entries. 0 \<le> estimatedCost e" and "W1 \<le> W2"
  shows "computeSpend P now entries W1 \<le> computeSpend P now entries W2"
proof -
  have "dbl (now - W2) \<le> dbl (now - W1)" using assms(2) by (intro dbl_mono) simp
  then show ?thesis
    unfolding computeSpend_def num_sub_def
    using assms(1) by (intro sumFrom_mono) (simp_all add: dbl_zero)
qed

theorem computeSpend_window_mono_witness:
  "list_all (\<lambda>e. 0 \<le> estimatedCost e) demoEntries \<and> HOUR \<le> DAY \<and>
   computeSpend demoEnv 1800000000000 demoEntries HOUR
     \<le> computeSpend demoEnv 1800000000000 demoEntries DAY"
proof -
  have h1: "\<forall>e \<in> set demoEntries. 0 \<le> estimatedCost e" by code_simp
  have h2: "HOUR \<le> DAY" by (simp add: HOUR_def DAY_def)
  from computeSpend_window_mono [OF h1 h2] h1 h2 show ?thesis by (simp add: list_all_iff)
qed


section \<open>Rounded sums on the grid of \<open>2^-60\<close>\<close>



lemma roundInt_nonneg: "0 \<le> N \<Longrightarrow> 0 \<le> roundInt N"
  by (auto simp: roundInt_def Let_def pos_imp_zdiv_nonneg_iff)



lemma centsSum_nonneg: "0 \<le> T \<Longrightarrow> 0 \<le> C \<Longrightarrow> 0 \<le> centsSum n C T"
  by (induction n arbitrary: T) (simp_all add: roundInt_nonneg)








section \<open>Reading the ledger tolerates malformed lines\<close>

lemma parseLines_map_filter:
  "parseLines P ls acc = acc @ List.map_filter (JSON_parse P) ls"
  by (induction ls arbitrary: acc) (auto split: option.splits)

lemma split_nl_single: "NL \<notin> set l \<Longrightarrow> split_nl l = [l]"
  by (induction l) auto

lemma split_nl_line: "NL \<notin> set l \<Longrightarrow> split_nl (l @ NL # rest) = l # split_nl rest"
  by (induction l) auto

lemma split_nl_joinLines:
  assumes "ls \<noteq> []" and "\<forall>l \<in> set ls. NL \<notin> set l"
  shows "split_nl (joinLines ls) = ls"
  using assms
proof (induction ls)
  case Nil
  then show ?case by simp
next
  case (Cons l rest)
  show ?case
  proof (cases "rest = []")
    case True
    then show ?thesis using Cons.prems by (simp add: joinLines_def split_nl_single)
  next
    case False
    then have "joinLines (l # rest) = l @ NL # joinLines rest" by (simp add: joinLines_def)
    then show ?thesis using Cons False by (simp add: split_nl_line)
  qed
qed

lemma lines_content: "ls \<noteq> [] \<Longrightarrow> concat (map (\<lambda>l. l @ [NL]) ls) = joinLines ls @ [NL]"
  by (induction ls rule: rev_induct) (simp_all add: joinLines_def)

lemma trim_edges:
  assumes "s \<noteq> []" and "\<not> isTrimChar (hd s)" and "\<not> isTrimChar (last s)"
  shows "trim (s @ [NL]) = s"
proof -
  obtain c cs where s: "s = c # cs" using assms(1) by (cases s) auto
  have front: "dropWhile isTrimChar (s @ [NL]) = s @ [NL]" using assms(2) by (simp add: s)
  obtain d ds where r: "rev s = d # ds" using assms(1) by (cases \<open>rev s\<close>) auto
  have "d = last s" using r by (metis hd_rev list.sel(1))
  then have bk: "dropWhile isTrimChar (rev s) = rev s" using assms(3) by (simp add: r)
  have nl: "isTrimChar NL" by (simp add: isTrimChar_def NL_def)
  show ?thesis by (simp add: trim_def front bk nl)
qed

lemma joinLines_edges:
  assumes "ls \<noteq> []" and "hd ls \<noteq> []" and "last ls \<noteq> []"
  shows "joinLines ls \<noteq> []" and "hd (joinLines ls) = hd (hd ls)"
    and "last (joinLines ls) = last (last ls)"
proof -
  show "joinLines ls \<noteq> []" using assms(3) by (simp add: joinLines_def)
  show "last (joinLines ls) = last (last ls)" using assms(3) by (simp add: joinLines_def)
  show "hd (joinLines ls) = hd (hd ls)"
  proof (cases ls)
    case Nil
    then show ?thesis using assms(1) by simp
  next
    case (Cons l rest)
    then show ?thesis using assms(2) by (cases rest) (auto simp: joinLines_def)
  qed
qed

lemma loadUsageLog_lines:
  assumes "usageFile w = Some (concat (map (\<lambda>l. l @ [NL]) ls))" and "ls \<noteq> []"
    and "\<forall>l \<in> set ls. NL \<notin> set l"
    and "hd ls \<noteq> []" and "\<not> isTrimChar (hd (hd ls))"
    and "last ls \<noteq> []" and "\<not> isTrimChar (last (last ls))"
  shows "loadUsageLog P w = List.map_filter (JSON_parse P) ls"
proof -
  have fc: "usageFile w = Some (joinLines ls @ [NL])" using assms(1,2) by (simp add: lines_content)
  have e: "joinLines ls \<noteq> []" "hd (joinLines ls) = hd (hd ls)"
    "last (joinLines ls) = last (last ls)"
    using assms by (simp_all add: joinLines_edges)
  have t: "trim (joinLines ls @ [NL]) = joinLines ls"
    using e assms by (intro trim_edges) simp_all
  have s: "split_nl (joinLines ls) = ls" using assms by (intro split_nl_joinLines) simp_all
  show ?thesis
    using e(1) by (simp add: loadUsageLog_def fc t s Let_def parseLines_map_filter)
qed

lemma demoParse_lines:
  "JSON_parse demoEnv ''posts.create'' =
     Some (entryValue \<lparr>timestamp = ''now'', endpoint = ''posts.create'', httpMethod = ''POST'',
                        estimatedCost = dbl (1/100)\<rparr>)"
  "JSON_parse demoEnv ''users.getMe'' =
     Some (entryValue \<lparr>timestamp = ''now'', endpoint = ''users.getMe'', httpMethod = ''GET'',
                        estimatedCost = dbl (5/1000)\<rparr>)"
  "JSON_parse demoEnv ''media.getUploadStatus'' =
     Some (entryValue \<lparr>timestamp = ''now'', endpoint = ''media.getUploadStatus'',
                        httpMethod = ''GET'', estimatedCost = dbl (5/1000)\<rparr>)"
  "JSON_parse demoEnv ''spent-1.99'' =
     Some (entryValue \<lparr>timestamp = ''now'', endpoint = ''posts.searchAll'', httpMethod = ''GET'',
                        estimatedCost = dbl (199/100)\<rparr>)"
  "JSON_parse demoEnv ''{timestamp:2026-11-0'' = None"
  "JSON_parse demoEnv ''null'' = Some JNull"
  by (simp_all add: demoEnv_def demoParse_def inferMethod_def METHOD_MAP_def
      estimateCost_def COST_MAP_def DEFAULT_COST_def)

text \<open>
  C9, as the code has it. Reading the ledger never fails and returns, in file order, the
  value of every line that \<open>JSON.parse\<close> accepts, whatever its shape: an absent file gives
  no entry; for every content, the lines are those of the trimmed content and exactly
  the lines that \<open>JSON.parse\<close> rejects are skipped. For a file of newline-terminated lines
  (the form every append writes) that neither starts nor ends with white space, the
  result is the parse of each line that parses, so a line that is not JSON between
  well-formed ones removes nothing around it.
\<close>

theorem loadUsageLog_skips_malformed:
  "(usageFile w = None \<longrightarrow> loadUsageLog P w = []) \<and>
   (\<forall>content. usageFile w = Some content \<longrightarrow>
      loadUsageLog P w =
        List.map_filter (JSON_parse P) (if trim content = [] then [] else split_nl (trim content))) \<and>
   (\<forall>ls. usageFile w = Some (concat (map (\<lambda>l. l @ [NL]) ls)) \<and> ls \<noteq> [] \<and>
      (\<forall>l \<in> set ls. NL \<notin> set l) \<and>
      hd ls \<noteq> [] \<and> \<not> isTrimChar (hd (hd ls)) \<and>
      last ls \<noteq> [] \<and> \<not> isTrimChar (last (last ls)) \<longrightarrow>
      loadUsageLog P w = List.map_filter (JSON_parse P) ls)"
proof (intro conjI allI impI)
  assume "usageFile w = None"
  then show "loadUsageLog P w = []" by (simp add: loadUsageLog_def)
next
  fix content
  assume "usageFile w = Some content"
  then show "loadUsageLog P w =
      List.map_filter (JSON_parse P) (if trim content = [] then [] else split_nl (trim content))"
    by (simp add: loadUsageLog_def Let_def parseLines_map_filter)
next
  fix ls
  assume h: "usageFile w = Some (concat (map (\<lambda>l. l @ [NL]) ls)) \<and> ls \<noteq> [] \<and>
      (\<forall>l \<in> set ls. NL \<notin> set l) \<and>
      hd ls \<noteq> [] \<and> \<not> isTrimChar (hd (hd ls)) \<and>
      last ls \<noteq> [] \<and> \<not> isTrimChar (last (last ls))"
  then show "loadUsageLog P w = List.map_filter (JSON_parse P) ls"
    by (intro loadUsageLog_lines) simp_all
qed

theorem loadUsageLog_skips_malformed_witness:
  "usageFile corruptWorld =
     Some (concat (map (\<lambda>l. l @ [NL]) [''posts.create'', ''{timestamp:2026-11-0'', ''users.getMe''])) \<and>
   JSON_parse demoEnv ''posts.create'' \<noteq> None \<and>
   JSON_parse demoEnv ''{timestamp:2026-11-0'' = None \<and>
   JSON_parse demoEnv ''users.getMe'' \<noteq> None \<and>
   loadUsageLog demoEnv corruptWorld =
     [entryValue \<lparr>timestamp = ''now'', endpoint = ''posts.create'', httpMethod = ''POST'',
                  estimatedCost = dbl (1/100)\<rparr>,
      entryValue \<lparr>timestamp = ''now'', endpoint = ''users.getMe'', httpMethod = ''GET'',
                  estimatedCost = dbl (5/1000)\<rparr>]"
proof -
  let ?ls = "[''posts.create'', ''{timestamp:2026-11-0'', ''users.getMe'']"
  have f: "usageFile corruptWorld = Some (concat (map (\<lambda>l. l @ [NL]) ?ls))"
    by (simp add: corruptWorld_def)
  have h: "usageFile corruptWorld = Some (concat (map (\<lambda>l. l @ [NL]) ?ls)) \<and> ?ls \<noteq> [] \<and>
      (\<forall>l \<in> set ?ls. NL \<notin> set l) \<and>
      hd ?ls \<noteq> [] \<and> \<not> isTrimChar (hd (hd ?ls)) \<and>
      last ?ls \<noteq> [] \<and> \<not> isTrimChar (last (last ?ls))"
    using f by (simp add: NL_def isTrimChar_def)
  note p = demoParse_lines(1,2,5)
  have "loadUsageLog demoEnv corruptWorld = List.map_filter (JSON_parse demoEnv) ?ls"
    using loadUsageLog_skips_malformed [of corruptWorld demoEnv] h by blast
  then have "loadUsageLog demoEnv corruptWorld =
     [entryValue \<lparr>timestamp = ''now'', endpoint = ''posts.create'', httpMethod = ''POST'',
                  estimatedCost = dbl (1/100)\<rparr>,
      entryValue \<lparr>timestamp = ''now'', endpoint = ''users.getMe'', httpMethod = ''GET'',
                  estimatedCost = dbl (5/1000)\<rparr>]"
    by (simp add: p List.map_filter_simps)
  then show ?thesis using f p by simp
qed

text \<open>
  The wording of the specification, that exactly the well-formed entries are returned,
  fails on a line that is JSON but no usage record: the line \<open>null\<close> between two
  records is returned as an entry.
\<close>

theorem loadUsageLog_returns_every_json_line:
  "usageFile oddWorld =
     Some (concat (map (\<lambda>l. l @ [NL]) [''posts.create'', ''null'', ''users.getMe''])) \<and>
   JSON_parse demoEnv ''null'' = Some JNull \<and>
   \<not> isUsageEntry JNull \<and>
   loadUsageLog demoEnv oddWorld =
     [entryValue \<lparr>timestamp = ''now'', endpoint = ''posts.create'', httpMethod = ''POST'',
                  estimatedCost = dbl (1/100)\<rparr>,
      JNull,
      entryValue \<lparr>timestamp = ''now'', endpoint = ''users.getMe'', httpMethod = ''GET'',
                  estimatedCost = dbl (5/1000)\<rparr>]"
proof -
  let ?ls = "[''posts.create'', ''null'', ''users.getMe'']"
  have f: "usageFile oddWorld = Some (concat (map (\<lambda>l. l @ [NL]) ?ls))"
    by (simp add: oddWorld_def)
  have "loadUsageLog demoEnv oddWorld = List.map_filter (JSON_parse demoEnv) ?ls"
    using f by (intro loadUsageLog_lines) (simp_all add: NL_def isTrimChar_def)
  then have "loadUsageLog demoEnv oddWorld =
     [entryValue \<lparr>timestamp = ''now'', endpoint = ''posts.create'', httpMethod = ''POST'',
                  estimatedCost = dbl (1/100)\<rparr>,
      JNull,
      entryValue \<lparr>timestamp = ''now'', endpoint = ''users.getMe'', httpMethod = ''GET'',
                  estimatedCost = dbl (5/1000)\<rparr>]"
    by (simp add: demoParse_lines List.map_filter_simps)
  then show ?thesis using f by (simp add: demoParse_lines isUsageEntry_def)
qed

section \<open>The budget enforcer decides before dispatch\<close>

lemma checkBudget_frame:
  "usageFile (snd (checkBudget P ep w)) = usageFile w"
  "net (snd (checkBudget P ep w)) = net w"
  "budgetFile (snd (checkBudget P ep w)) = budgetFile w"
  "clock (snd (checkBudget P ep w)) = clock w"
  by (auto simp: checkBudget_def confirmPrompt_def Let_def
      split: option.splits sum.splits BudgetAction.splits list.splits)

lemma checkBudget_no_limit:
  "daily (loadBudget w) = None \<Longrightarrow> checkBudget P ep w = (Inr (), w)"
  by (simp add: checkBudget_def)

lemma checkBudget_zero_limit:
  "daily (loadBudget w) = Some 0 \<Longrightarrow> checkBudget P ep w = (Inr (), w)"
  by (simp add: checkBudget_def)

text \<open>
  On the objects of records, the sum over values is the sum over the records: the
  readings are a string and a number, and \<open>+\<close> adds.
\<close>

lemma sumValues_records:
  "sumValues P cutoff (map entryValue es) (JNum t) = Inr (JNum (sumFrom P cutoff es t))"
  by (induction es arbitrary: t)
    (simp_all add: entryValue_def getProp_def timeOf_def inWindow_def js_plus_def
      isStringy_def toNumber_def)

lemma computeTodaySpend_records:
  "computeTodaySpend P now (map entryValue es) =
     Inr (JNum (sumFrom P (localMidnight P now) es 0))"
  by (simp add: computeTodaySpend_def sumValues_records)

lemma sum_number:
  "js_le P (js_plus P (JNum t) (JNum c)) d = (num_add t c \<le> d)"
  by (simp add: js_le_def js_plus_def isStringy_def toNumber_def)


lemma checkBudget_block:
  "daily (loadBudget w) = Some d \<Longrightarrow> d \<noteq> 0 \<Longrightarrow> action (loadBudget w) = Block \<Longrightarrow>
   computeTodaySpend P (clock w) (loadUsageLog P w) = Inr (JNum t) \<Longrightarrow>
   \<not> num_add t (estimateCost ep) \<le> d \<Longrightarrow>
   checkBudget P ep w = (Inl (BudgetExceeded d (JNum t) (estimateCost ep)), w)"
  by (simp add: checkBudget_def Let_def sum_number hasToFixed_def)

lemma wrapClient_rejected:
  "checkBudget P (ns @ ''.'' @ m) w = (Inl e, w1) \<Longrightarrow>
   wrapClient P target ns m args w = (Inl e, w1)"
  by (simp add: wrapClient_def)

lemma wrapClient_admitted:
  "checkBudget P (ns @ ''.'' @ m) w = (Inr u, w1) \<Longrightarrow>
   wrapClient P target ns m args w = target ns m args (logApiCall P (ns @ ''.'' @ m) w1)"
  by (simp add: wrapClient_def)

text \<open>
  What an entry that is no record does to the sum: \<open>null\<close> makes the first property
  read throw, a value without a time stamp is outside every window, and an entry of
  today without a cost turns the total into NaN; under a limit the check then fails
  with the TypeError, or compares NaN, which is never within the limit.
\<close>

lemma sumValues_null: "sumValues P cutoff (JNull # rest) tot = Inl (TypeError ''timestamp'')"
  by (simp add: getProp_def)

lemma sumValues_shapeless:
  "sumValues P cutoff (JObj [] # rest) tot = sumValues P cutoff rest tot"
  "sumValues P cutoff (JNum x # rest) tot = sumValues P cutoff rest tot"
  by (simp_all add: getProp_def timeOf_def toNumber_def)

lemma sumValues_no_cost:
  assumes "Date_getTime P s = Some t" and "cutoff \<le> t"
  shows "sumValues P cutoff [JObj [(''timestamp'', JStr s)]] (JNum tot) = Inr JNaN"
  using assms by (simp add: getProp_def timeOf_def js_plus_def isStringy_def toNumber_def)

lemma checkBudget_null_entry:
  assumes "daily (loadBudget w) = Some d" and "d \<noteq> 0" and "loadUsageLog P w = JNull # rest"
  shows "checkBudget P ep w = (Inl (TypeError ''timestamp''), w)"
  using assms by (simp add: checkBudget_def computeTodaySpend_def getProp_def)

lemma checkBudget_NaN:
  assumes "daily (loadBudget w) = Some d" and "d \<noteq> 0" and "action (loadBudget w) = Block"
    and "computeTodaySpend P (clock w) (loadUsageLog P w) = Inr JNaN"
  shows "checkBudget P ep w = (Inl (BudgetExceeded d JNaN (estimateCost ep)), w)"
  using assms
  by (simp add: checkBudget_def Let_def js_le_def js_plus_def isStringy_def toNumber_def
      hasToFixed_def)

text \<open>The fixture: 1.99 spent today under a blocking limit of 2.00.\<close>

lemma spentWorld_budget: "budgetFile spentWorld = Some \<lparr>daily = Some 2, action = Block\<rparr>"
  by (simp add: spentWorld_def)

lemma now_today: "inWindow demoEnv (localMidnight demoEnv t) (e\<lparr>timestamp := ''now''\<rparr>)"
  by (simp add: inWindow_def demoEnv_def)

lemma spentWorld_entries:
  "loadUsageLog demoEnv spentWorld =
     map entryValue [\<lparr>timestamp = ''now'', endpoint = ''posts.searchAll'', httpMethod = ''GET'',
                       estimatedCost = dbl (199/100)\<rparr>]"
proof -
  have "loadUsageLog demoEnv spentWorld = List.map_filter (JSON_parse demoEnv) [''spent-1.99'']"
    by (intro loadUsageLog_lines) (simp_all add: spentWorld_def NL_def isTrimChar_def)
  then show ?thesis by (simp add: demoParse_lines List.map_filter_simps)
qed

lemma first_199: "num_add 0 (dbl (199/100)) = dbl (199/100)"
  by (simp add: num_add_def dbl_idem)

lemma spentWorld_today:
  "computeTodaySpend demoEnv (clock spentWorld) (loadUsageLog demoEnv spentWorld) =
     Inr (JNum (dbl (199/100)))"
  unfolding spentWorld_entries computeTodaySpend_records
  using now_today [of _ "\<lparr>timestamp = ''now'', endpoint = ''posts.searchAll'', httpMethod = ''GET'',
                       estimatedCost = dbl (199/100)\<rparr>"]
  by (simp add: first_199)

lemma cost_searchAll: "estimateCost ''posts.searchAll'' = dbl (2/100)"
  by (simp add: estimateCost_def COST_MAP_def)



lemma sum_199_2: "\<not> num_add (dbl (199/100)) (dbl (2/100)) \<le> 2"
  by code_simp


lemma spentWorld_blocks_searchAll:
  "checkBudget demoEnv (''posts'' @ ''.'' @ ''searchAll'') spentWorld =
     (Inl (BudgetExceeded 2 (JNum (dbl (199/100))) (dbl (2/100))), spentWorld)"
proof -
  have d: "daily (loadBudget spentWorld) = Some 2" and a: "action (loadBudget spentWorld) = Block"
    by (simp_all add: loadBudget_def spentWorld_budget)
  have c: "estimateCost (''posts'' @ ''.'' @ ''searchAll'') = dbl (2/100)"
    using cost_searchAll by simp
  have "\<not> num_add (dbl (199/100)) (estimateCost (''posts'' @ ''.'' @ ''searchAll'')) \<le> 2"
    unfolding c by (rule sum_199_2)
  from checkBudget_block [OF d _ a spentWorld_today this] show ?thesis
    unfolding c by simp
qed




section \<open>The boundary of the daily limit\<close>










text \<open>
  C10. A persisted daily limit of 0 is treated as no limit: whatever the ledger holds and
  whatever the action, the check admits and leaves the state as it is, and the
  intercepted call is logged and dispatched; yet \<open>xc budget set\<close> refuses every amount
  that is not positive.
\<close>

theorem zero_limit_admits_everything:
  "(daily (loadBudget w) = Some 0 \<longrightarrow>
      checkBudget P (ns @ ''.'' @ m) w = (Inr (), w) \<and>
      wrapClient P (sdkClient P) ns m args w =
        sdkClient P ns m args (logApiCall P (ns @ ''.'' @ m) w)) \<and>
   (d \<le> 0 \<longrightarrow> budgetSet (Some d) act w = (Inl InvalidDaily, w))"
  using checkBudget_zero_limit wrapClient_admitted
  by (auto simp: budgetSet_def)

theorem zero_limit_admits_everything_witness:
  "daily (loadBudget zeroLimitWorld) = Some 0 \<and>
   action (loadBudget zeroLimitWorld) = Block \<and>
   fst (checkBudget demoEnv (''posts'' @ ''.'' @ ''searchAll'') zeroLimitWorld) = Inr () \<and>
   net (snd (wrapClient demoEnv (sdkClient demoEnv) ''posts'' ''searchAll'' [] zeroLimitWorld)) =
     [SdkRequest ''posts'' ''searchAll'' []] \<and>
   (0::rat) \<le> 0 \<and>
   fst (budgetSet (Some 0) ''block'' zeroLimitWorld) = Inl InvalidDaily"
proof -
  have h1: "daily (loadBudget zeroLimitWorld) = Some 0"
    and h2: "action (loadBudget zeroLimitWorld) = Block"
    by (simp_all add: loadBudget_def zeroLimitWorld_def)
  have n: "net zeroLimitWorld = []"
    by (simp add: zeroLimitWorld_def spentWorld_def demoWorld_def)
  note z = zero_limit_admits_everything
    [of zeroLimitWorld demoEnv "''posts''" "''searchAll''" "[]" 0 "''block''"]
  have r1: "fst (checkBudget demoEnv (''posts'' @ ''.'' @ ''searchAll'') zeroLimitWorld) = Inr ()"
    using z h1 by simp
  have r2: "net (snd (wrapClient demoEnv (sdkClient demoEnv) ''posts'' ''searchAll'' [] zeroLimitWorld)) =
     [SdkRequest ''posts'' ''searchAll'' []]"
    using z h1 n by (simp add: sdkClient_def dispatch_def logApiCall_def Let_def)
  have r3: "fst (budgetSet (Some 0) ''block'' zeroLimitWorld) = Inl InvalidDaily"
    using z by simp
  from h1 h2 r1 r2 r3 show ?thesis by simp
qed

section \<open>The call interceptor\<close>

lemma logApiCall_frame:
  "net (logApiCall P ep w) = net w"
  "budgetFile (logApiCall P ep w) = budgetFile w"
  "clock (logApiCall P ep w) = clock w"
  by (simp_all add: logApiCall_def Let_def)

lemma logApiCall_usageFile:
  "usageFile (logApiCall P ep w) =
    Some ((case usageFile w of None \<Rightarrow> [] | Some content \<Rightarrow> content) @
          JSON_stringify P \<lparr>timestamp = toISOString P (clock w), endpoint = ep,
                             httpMethod = inferMethod ep, estimatedCost = estimateCost ep\<rparr> @ [NL])"
  by (simp add: logApiCall_def Let_def)

lemma sdkClient_frame:
  "net (snd (sdkClient P ns m args w)) = net w @ [SdkRequest ns m args]"
  "usageFile (snd (sdkClient P ns m args w)) = usageFile w"
  "budgetFile (snd (sdkClient P ns m args w)) = budgetFile w"
  "fst (sdkClient P ns m args w) = sdk P (net w) (SdkRequest ns m args)"
  by (simp_all add: sdkClient_def dispatch_def)

text \<open>
  C2. An intercepted invocation of \<open>ns.m\<close>: when the budget check rejects, its error and
  state are the result, the ledger file and the network trace are as before; when it
  admits, the underlying request is dispatched once, its outcome (a failure as well as
  a response) is the result, and the ledger file has grown by exactly one line, the
  record of this call.
\<close>

theorem wrapClient_accounting:
  "(\<forall>e w1. checkBudget P (ns @ ''.'' @ m) w = (Inl e, w1) \<longrightarrow>
      wrapClient P (sdkClient P) ns m args w = (Inl e, w1) \<and>
      usageFile w1 = usageFile w \<and> net w1 = net w) \<and>
   (\<forall>w1. checkBudget P (ns @ ''.'' @ m) w = (Inr (), w1) \<longrightarrow>
      fst (wrapClient P (sdkClient P) ns m args w) = sdk P (net w) (SdkRequest ns m args) \<and>
      net (snd (wrapClient P (sdkClient P) ns m args w)) = net w @ [SdkRequest ns m args] \<and>
      usageFile (snd (wrapClient P (sdkClient P) ns m args w)) =
        Some ((case usageFile w of None \<Rightarrow> [] | Some content \<Rightarrow> content) @
              JSON_stringify P
                \<lparr>timestamp = toISOString P (clock w), endpoint = ns @ ''.'' @ m,
                 httpMethod = inferMethod (ns @ ''.'' @ m),
                 estimatedCost = estimateCost (ns @ ''.'' @ m)\<rparr> @ [NL]))"
proof (intro conjI allI impI)
  fix e w1
  assume h: "checkBudget P (ns @ ''.'' @ m) w = (Inl e, w1)"
  then show "wrapClient P (sdkClient P) ns m args w = (Inl e, w1)" by (rule wrapClient_rejected)
  show "usageFile w1 = usageFile w" using checkBudget_frame(1) [of P "ns @ ''.'' @ m" w] h by simp
  show "net w1 = net w" using checkBudget_frame(2) [of P "ns @ ''.'' @ m" w] h by simp
next
  fix w1
  assume h: "checkBudget P (ns @ ''.'' @ m) w = (Inr (), w1)"
  have f: "usageFile w1 = usageFile w" "net w1 = net w" "clock w1 = clock w"
    using checkBudget_frame(1,2,4) [of P "ns @ ''.'' @ m" w] h by simp_all
  have eq: "wrapClient P (sdkClient P) ns m args w =
      sdkClient P ns m args (logApiCall P (ns @ ''.'' @ m) w1)"
    using h by (rule wrapClient_admitted)
  show "fst (wrapClient P (sdkClient P) ns m args w) = sdk P (net w) (SdkRequest ns m args)"
    by (simp add: eq sdkClient_frame logApiCall_frame f)
  show "net (snd (wrapClient P (sdkClient P) ns m args w)) = net w @ [SdkRequest ns m args]"
    by (simp add: eq sdkClient_frame logApiCall_frame f)
  show "usageFile (snd (wrapClient P (sdkClient P) ns m args w)) =
        Some ((case usageFile w of None \<Rightarrow> [] | Some content \<Rightarrow> content) @
              JSON_stringify P
                \<lparr>timestamp = toISOString P (clock w), endpoint = ns @ ''.'' @ m,
                 httpMethod = inferMethod (ns @ ''.'' @ m),
                 estimatedCost = estimateCost (ns @ ''.'' @ m)\<rparr> @ [NL])"
    by (simp only: eq sdkClient_frame logApiCall_usageFile f)
qed

theorem wrapClient_accounting_witness:
  "wrapClient demoEnv (sdkClient demoEnv) ''posts'' ''searchAll'' [] spentWorld =
     (Inl (BudgetExceeded 2 (JNum (dbl (199/100))) (dbl (2/100))), spentWorld) \<and>
   fst (wrapClient offlineEnv (sdkClient offlineEnv) ''posts'' ''create'' [] demoWorld) =
     Inl (Rejected ''HTTP 503'') \<and>
   net (snd (wrapClient offlineEnv (sdkClient offlineEnv) ''posts'' ''create'' [] demoWorld)) =
     [SdkRequest ''posts'' ''create'' []] \<and>
   usageFile (snd (wrapClient offlineEnv (sdkClient offlineEnv) ''posts'' ''create'' [] demoWorld)) =
     Some (''posts.create'' @ [NL])"
proof -
  have cb: "checkBudget offlineEnv (''posts'' @ ''.'' @ ''create'') demoWorld = (Inr (), demoWorld)"
    by (rule checkBudget_no_limit) (simp add: loadBudget_def demoWorld_def)
  note a = wrapClient_accounting [of demoEnv "''posts''" "''searchAll''" spentWorld "[]"]
  note b = wrapClient_accounting [of offlineEnv "''posts''" "''create''" demoWorld "[]"]
  have r1: "wrapClient demoEnv (sdkClient demoEnv) ''posts'' ''searchAll'' [] spentWorld =
     (Inl (BudgetExceeded 2 (JNum (dbl (199/100))) (dbl (2/100))), spentWorld)"
    using a spentWorld_blocks_searchAll by blast
  have r2: "fst (wrapClient offlineEnv (sdkClient offlineEnv) ''posts'' ''create'' [] demoWorld) =
      sdk offlineEnv (net demoWorld) (SdkRequest ''posts'' ''create'' [])"
    and r3: "net (snd (wrapClient offlineEnv (sdkClient offlineEnv) ''posts'' ''create'' [] demoWorld)) =
      net demoWorld @ [SdkRequest ''posts'' ''create'' []]"
    and r4: "usageFile (snd (wrapClient offlineEnv (sdkClient offlineEnv) ''posts'' ''create'' [] demoWorld)) =
      Some ((case usageFile demoWorld of None \<Rightarrow> [] | Some content \<Rightarrow> content) @
              JSON_stringify offlineEnv
                \<lparr>timestamp = toISOString offlineEnv (clock demoWorld),
                 endpoint = ''posts'' @ ''.'' @ ''create'',
                 httpMethod = inferMethod (''posts'' @ ''.'' @ ''create''),
                 estimatedCost = estimateCost (''posts'' @ ''.'' @ ''create'')\<rparr> @ [NL])"
    using b cb by blast+
  show ?thesis
    using r1 r2 r3 r4 by (simp add: offlineEnv_def demoEnv_def demoWorld_def)
qed

section \<open>Validation before any network activity\<close>

lemma same_keys: "set (map fst CATEGORY_MAP) = set (map fst MIME_MAP)"
  by code_simp

lemma category_has_mime:
  assumes "map_of CATEGORY_MAP ext = Some c"
  shows "\<exists>t. map_of MIME_MAP ext = Some t"
proof -
  have "ext \<in> dom (map_of CATEGORY_MAP)" using assms by blast
  then have "ext \<in> set (map fst CATEGORY_MAP)" by (simp add: dom_map_of_conv_image_fst)
  then have "ext \<in> set (map fst MIME_MAP)" by (simp only: same_keys)
  then have "ext \<in> dom (map_of MIME_MAP)" by (simp add: dom_map_of_conv_image_fst)
  then show ?thesis by blast
qed

lemma uploadMedia_too_large:
  assumes "map_of CATEGORY_MAP (toLowerCase (path_extname P filePath)) = Some c"
    and "map_of SIZE_LIMITS c = Some limit"
    and "statSize w filePath = Some fileSize" and "limit < fileSize"
  shows "uploadMedia P filePath name w = (Inl (FileTooLarge fileSize c limit), w)"
proof -
  obtain t where "map_of MIME_MAP (toLowerCase (path_extname P filePath)) = Some t"
    using category_has_mime [OF assms(1)] by blast
  then show ?thesis using assms by (simp add: uploadMedia_def Let_def)
qed

text \<open>
  C7. An upload whose file has an unsupported extension fails with UnsupportedType, and
  one whose file is larger than the ceiling of its category (image 5 MiB, GIF 15 MiB,
  video 512 MiB) fails with FileTooLarge; in both cases the state is returned as it was:
  no request has been sent and nothing has been logged.
\<close>

theorem uploadMedia_preflight:
  "(map_of MIME_MAP (toLowerCase (path_extname P filePath)) = None \<longrightarrow>
      uploadMedia P filePath name w =
        (Inl (UnsupportedType (toLowerCase (path_extname P filePath))), w)) \<and>
   (\<forall>fileSize.
      map_of CATEGORY_MAP (toLowerCase (path_extname P filePath)) = Some ''tweet_image'' \<and>
      statSize w filePath = Some fileSize \<and> 5 * 1024 * 1024 < fileSize \<longrightarrow>
      uploadMedia P filePath name w =
        (Inl (FileTooLarge fileSize ''tweet_image'' (5 * 1024 * 1024)), w)) \<and>
   (\<forall>fileSize.
      map_of CATEGORY_MAP (toLowerCase (path_extname P filePath)) = Some ''tweet_gif'' \<and>
      statSize w filePath = Some fileSize \<and> 15 * 1024 * 1024 < fileSize \<longrightarrow>
      uploadMedia P filePath name w =
        (Inl (FileTooLarge fileSize ''tweet_gif'' (15 * 1024 * 1024)), w)) \<and>
   (\<forall>fileSize.
      map_of CATEGORY_MAP (toLowerCase (path_extname P filePath)) = Some ''tweet_video'' \<and>
      statSize w filePath = Some fileSize \<and> 512 * 1024 * 1024 < fileSize \<longrightarrow>
      uploadMedia P filePath name w =
        (Inl (FileTooLarge fileSize ''tweet_video'' (512 * 1024 * 1024)), w))"
proof (intro conjI allI impI)
  assume "map_of MIME_MAP (toLowerCase (path_extname P filePath)) = None"
  then show "uploadMedia P filePath name w =
      (Inl (UnsupportedType (toLowerCase (path_extname P filePath))), w)"
    by (simp add: uploadMedia_def Let_def)
next
  fix fileSize
  assume "map_of CATEGORY_MAP (toLowerCase (path_extname P filePath)) = Some ''tweet_image'' \<and>
      statSize w filePath = Some fileSize \<and> 5 * 1024 * 1024 < fileSize"
  then show "uploadMedia P filePath name w =
      (Inl (FileTooLarge fileSize ''tweet_image'' (5 * 1024 * 1024)), w)"
    by (intro uploadMedia_too_large) (simp_all add: SIZE_LIMITS_def)
next
  fix fileSize
  assume "map_of CATEGORY_MAP (toLowerCase (path_extname P filePath)) = Some ''tweet_gif'' \<and>
      statSize w filePath = Some fileSize \<and> 15 * 1024 * 1024 < fileSize"
  then show "uploadMedia P filePath name w =
      (Inl (FileTooLarge fileSize ''tweet_gif'' (15 * 1024 * 1024)), w)"
    by (intro uploadMedia_too_large) (simp_all add: SIZE_LIMITS_def)
next
  fix fileSize
  assume "map_of CATEGORY_MAP (toLowerCase (path_extname P filePath)) = Some ''tweet_video'' \<and>
      statSize w filePath = Some fileSize \<and> 512 * 1024 * 1024 < fileSize"
  then show "uploadMedia P filePath name w =
      (Inl (FileTooLarge fileSize ''tweet_video'' (512 * 1024 * 1024)), w)"
    by (intro uploadMedia_too_large) (simp_all add: SIZE_LIMITS_def)
qed

theorem uploadMedia_preflight_witness:
  "map_of MIME_MAP (toLowerCase (path_extname demoEnv ''notes.TXT'')) = None \<and>
   uploadMedia demoEnv ''notes.TXT'' None demoWorld = (Inl (UnsupportedType ''.txt''), demoWorld) \<and>
   map_of CATEGORY_MAP (toLowerCase (path_extname demoEnv ''huge.mp4'')) = Some ''tweet_video'' \<and>
   statSize demoWorld ''huge.mp4'' = Some (600 * 1024 * 1024) \<and>
   uploadMedia demoEnv ''huge.mp4'' None demoWorld =
     (Inl (FileTooLarge (600 * 1024 * 1024) ''tweet_video'' (512 * 1024 * 1024)), demoWorld)"
proof -
  have h1: "map_of MIME_MAP (toLowerCase (path_extname demoEnv ''notes.TXT'')) = None" by code_simp
  have e1: "toLowerCase (path_extname demoEnv ''notes.TXT'') = ''.txt''" by code_simp
  have h2: "map_of CATEGORY_MAP (toLowerCase (path_extname demoEnv ''huge.mp4'')) = Some ''tweet_video''"
    by code_simp
  have h3: "statSize demoWorld ''huge.mp4'' = Some (600 * 1024 * 1024)"
    by (simp add: demoWorld_def)
  have lt: "512 * 1024 * 1024 < (600 * 1024 * 1024 :: nat)" by simp
  note u = uploadMedia_preflight [of demoEnv "''notes.TXT''" None demoWorld]
  note v = uploadMedia_preflight [of demoEnv "''huge.mp4''" None demoWorld]
  have "uploadMedia demoEnv ''notes.TXT'' None demoWorld =
      (Inl (UnsupportedType (toLowerCase (path_extname demoEnv ''notes.TXT''))), demoWorld)"
    using u h1 by blast
  then have r1: "uploadMedia demoEnv ''notes.TXT'' None demoWorld =
      (Inl (UnsupportedType ''.txt''), demoWorld)"
    by (simp only: e1)
  have r2: "uploadMedia demoEnv ''huge.mp4'' None demoWorld =
     (Inl (FileTooLarge (600 * 1024 * 1024) ''tweet_video'' (512 * 1024 * 1024)), demoWorld)"
    using v h2 h3 lt by blast
  from h1 h2 h3 r1 r2 show ?thesis by blast
qed

section \<open>The APPEND loop\<close>

lemma CHUNK_SIZE_pos: "0 < CHUNK_SIZE"
  by (simp add: CHUNK_SIZE_def)

lemma segment_count_iff:
  assumes "0 < (C::nat)"
  shows "(seg * C < fs) = (seg < (fs + C - 1) div C)"
proof -
  have "(seg < (fs + C - 1) div C) = (Suc seg \<le> (fs + C - 1) div C)" by auto
  also have "\<dots> = (Suc seg * C \<le> fs + C - 1)"
    using assms by (simp add: less_eq_div_iff_mult_less_eq)
  also have "\<dots> = (seg * C < fs)" using assms by auto
  finally show ?thesis by simp
qed

lemma appendLoop_done:
  "fileSize \<le> bytesRead \<Longrightarrow>
   appendLoop P mediaId token filePath fileSize segmentIndex bytesRead w = (Inr (), w)"
  by (subst appendLoop.simps) simp

lemma appendLoop_step:
  assumes "bytesRead < fileSize"
    and "fetch P (net w)
           (AppendRequest mediaId token filePath segmentIndex bytesRead
              (min CHUNK_SIZE (fileSize - bytesRead))) = Inr resp"
    and "ok resp"
  shows "appendLoop P mediaId token filePath fileSize segmentIndex bytesRead w =
         appendLoop P mediaId token filePath fileSize (segmentIndex + 1)
           (bytesRead + min CHUNK_SIZE (fileSize - bytesRead))
           (w\<lparr>net := net w @
                  [AppendRequest mediaId token filePath segmentIndex bytesRead
                     (min CHUNK_SIZE (fileSize - bytesRead))],
              stderr := stderr w @
                  [UploadProgress (bytesRead + min CHUNK_SIZE (fileSize - bytesRead)) fileSize]\<rparr>)"
  using assms by (subst appendLoop.simps) (simp add: dispatch_def Let_def)

lemma appendLoop_run:
  assumes "\<forall>history req. \<exists>resp. fetch P history req = Inr resp \<and> ok resp"
  shows "fst (appendLoop P mediaId token filePath fileSize seg (min (seg * CHUNK_SIZE) fileSize) w)
           = Inr () \<and>
         net (snd (appendLoop P mediaId token filePath fileSize seg
                     (min (seg * CHUNK_SIZE) fileSize) w)) =
           net w @ map (\<lambda>i. AppendRequest mediaId token filePath i (i * CHUNK_SIZE)
                               (min CHUNK_SIZE (fileSize - i * CHUNK_SIZE)))
                       [seg..<(fileSize + CHUNK_SIZE - 1) div CHUNK_SIZE]"
proof (induction "(fileSize + CHUNK_SIZE - 1) div CHUNK_SIZE - seg" arbitrary: seg w)
  case 0
  then have "\<not> seg < (fileSize + CHUNK_SIZE - 1) div CHUNK_SIZE" by simp
  then have ge: "fileSize \<le> seg * CHUNK_SIZE"
    using segment_count_iff [OF CHUNK_SIZE_pos, of seg fileSize] by simp
  then have "min (seg * CHUNK_SIZE) fileSize = fileSize" by simp
  then show ?case using 0 by (simp add: appendLoop_done)
next
  case (Suc n)
  let ?k = "(fileSize + CHUNK_SIZE - 1) div CHUNK_SIZE"
  let ?len = "min CHUNK_SIZE (fileSize - seg * CHUNK_SIZE)"
  let ?req = "AppendRequest mediaId token filePath seg (seg * CHUNK_SIZE) ?len"
  let ?w = "w\<lparr>net := net w @ [?req],
               stderr := stderr w @ [UploadProgress (seg * CHUNK_SIZE + ?len) fileSize]\<rparr>"
  from Suc.hyps(2) have lt: "seg < ?k" by simp
  then have lt': "seg * CHUNK_SIZE < fileSize"
    using segment_count_iff [OF CHUNK_SIZE_pos, of seg fileSize] by simp
  then have cur: "min (seg * CHUNK_SIZE) fileSize = seg * CHUNK_SIZE" by simp
  obtain resp where resp: "fetch P (net w) ?req = Inr resp" "ok resp" using assms by blast
  have nxt: "seg * CHUNK_SIZE + ?len = min ((seg + 1) * CHUNK_SIZE) fileSize"
    using lt' by (simp add: min_def) arith
  have step: "appendLoop P mediaId token filePath fileSize seg (seg * CHUNK_SIZE) w =
      appendLoop P mediaId token filePath fileSize (seg + 1)
        (min ((seg + 1) * CHUNK_SIZE) fileSize) ?w"
    using appendLoop_step [OF lt' resp] by (simp only: nxt)
  have n: "n = ?k - (seg + 1)" using Suc.hyps(2) by simp
  note IH = Suc.hyps(1) [OF n, of ?w]
  have upt: "[seg..<?k] = seg # [seg + 1..<?k]" using lt by (simp add: upt_conv_Cons)
  show ?case
    unfolding cur step upt using IH by simp
qed

lemma appendLoop_prefix:
  "\<exists>n. seg \<le> n \<and> n \<le> max seg ((fileSize + CHUNK_SIZE - 1) div CHUNK_SIZE) \<and>
     net (snd (appendLoop P mediaId token filePath fileSize seg (min (seg * CHUNK_SIZE) fileSize) w)) =
       net w @ map (\<lambda>i. AppendRequest mediaId token filePath i (i * CHUNK_SIZE)
                           (min CHUNK_SIZE (fileSize - i * CHUNK_SIZE))) [seg..<n]"
proof (induction "(fileSize + CHUNK_SIZE - 1) div CHUNK_SIZE - seg" arbitrary: seg w)
  case 0
  then have "\<not> seg < (fileSize + CHUNK_SIZE - 1) div CHUNK_SIZE" by simp
  then have "fileSize \<le> seg * CHUNK_SIZE"
    using segment_count_iff [OF CHUNK_SIZE_pos, of seg fileSize] by simp
  then have "min (seg * CHUNK_SIZE) fileSize = fileSize" by simp
  then have "net (snd (appendLoop P mediaId token filePath fileSize seg
      (min (seg * CHUNK_SIZE) fileSize) w)) = net w"
    by (simp add: appendLoop_done)
  then show ?case by (intro exI [of _ seg]) simp
next
  case (Suc m)
  let ?k = "(fileSize + CHUNK_SIZE - 1) div CHUNK_SIZE"
  let ?mk = "\<lambda>i. AppendRequest mediaId token filePath i (i * CHUNK_SIZE)
                   (min CHUNK_SIZE (fileSize - i * CHUNK_SIZE))"
  let ?len = "min CHUNK_SIZE (fileSize - seg * CHUNK_SIZE)"
  let ?w = "w\<lparr>net := net w @ [?mk seg],
               stderr := stderr w @ [UploadProgress (seg * CHUNK_SIZE + ?len) fileSize]\<rparr>"
  from Suc.hyps(2) have lt: "seg < ?k" by simp
  then have lt': "seg * CHUNK_SIZE < fileSize"
    using segment_count_iff [OF CHUNK_SIZE_pos, of seg fileSize] by simp
  then have cur: "min (seg * CHUNK_SIZE) fileSize = seg * CHUNK_SIZE" by simp
  have one: "[seg..<seg + 1] = [seg]" by simp
  have stop: "net (snd (appendLoop P mediaId token filePath fileSize seg (seg * CHUNK_SIZE) w)) =
      net w @ map ?mk [seg..<seg + 1]"
    if "\<And>resp. fetch P (net w) (?mk seg) = Inr resp \<Longrightarrow> \<not> ok resp"
  proof (cases "fetch P (net w) (?mk seg)")
    case (Inl e)
    then show ?thesis using lt'
      by (subst appendLoop.simps) (simp add: dispatch_def Let_def)
  next
    case (Inr resp)
    then have "\<not> ok resp" using that by simp
    then show ?thesis using lt' Inr
      by (subst appendLoop.simps) (simp add: dispatch_def Let_def)
  qed
  show ?case
  proof (cases "\<exists>resp. fetch P (net w) (?mk seg) = Inr resp \<and> ok resp")
    case False
    then have "net (snd (appendLoop P mediaId token filePath fileSize seg (seg * CHUNK_SIZE) w)) =
      net w @ map ?mk [seg..<seg + 1]"
      by (intro stop) blast
    moreover have "seg + 1 \<le> max seg ?k" using lt by simp
    ultimately show ?thesis unfolding cur by (intro exI [of _ "seg + 1"]) simp
  next
    case True
    then obtain resp where resp: "fetch P (net w) (?mk seg) = Inr resp" "ok resp" by blast
    have nxt: "seg * CHUNK_SIZE + ?len = min ((seg + 1) * CHUNK_SIZE) fileSize"
      using lt' by (simp add: min_def) arith
    have step: "appendLoop P mediaId token filePath fileSize seg (seg * CHUNK_SIZE) w =
        appendLoop P mediaId token filePath fileSize (seg + 1)
          (min ((seg + 1) * CHUNK_SIZE) fileSize) ?w"
      using appendLoop_step [OF lt' resp] by (simp only: nxt)
    have m: "m = ?k - (seg + 1)" using Suc.hyps(2) by simp
    from Suc.hyps(1) [OF m, of ?w]
    obtain n where n: "seg + 1 \<le> n" "n \<le> max (seg + 1) ?k"
      "net (snd (appendLoop P mediaId token filePath fileSize (seg + 1)
          (min ((seg + 1) * CHUNK_SIZE) fileSize) ?w)) = net ?w @ map ?mk [seg + 1..<n]"
      by blast
    have upt: "[seg..<n] = seg # [seg + 1..<n]" using n(1) by (simp add: upt_conv_Cons)
    have "net (snd (appendLoop P mediaId token filePath fileSize seg (seg * CHUNK_SIZE) w)) =
        net w @ map ?mk [seg..<n]"
      unfolding step upt using n(3) by simp
    moreover have "seg \<le> n" "n \<le> max seg ?k" using n(1,2) lt by simp_all
    ultimately show ?thesis unfolding cur by blast
  qed
qed

lemma chunk_sum:
  "(\<Sum>i<j. min C (fs - i * C)) = min (j * C) (fs::nat)"
proof (induction j)
  case 0
  then show ?case by simp
next
  case (Suc j)
  then show ?case by (simp add: min_def) arith
qed

lemma segment_count_ceiling:
  assumes "0 < (C::nat)"
  shows "int ((fs + C - 1) div C) = \<lceil>(of_nat fs :: rat) / of_nat C\<rceil>"
proof -
  let ?k = "(fs + C - 1) div C"
  have up: "fs \<le> ?k * C"
    using segment_count_iff [OF assms, of ?k fs] by auto
  have lo: "0 < ?k \<Longrightarrow> (?k - 1) * C < fs"
    using segment_count_iff [OF assms, of "?k - 1" fs] by auto
  have c: "(0::rat) < of_nat C" using assms by simp
  have "(of_nat fs :: rat) \<le> of_nat (?k * C)" using up by (simp only: of_nat_le_iff)
  then have a: "(of_nat fs :: rat) / of_nat C \<le> of_int (int ?k)"
    using c by (simp add: pos_divide_le_eq)
  have b: "of_int (int ?k) - 1 < (of_nat fs :: rat) / of_nat C"
  proof (cases "?k = 0")
    case True
    have "(0::rat) \<le> of_nat fs / of_nat C" by simp
    then have "- 1 < (of_nat fs :: rat) / of_nat C" by linarith
    then show ?thesis using True by simp
  next
    case False
    then have "(?k - 1) * C < fs" using lo by simp
    then have "(of_nat ((?k - 1) * C) :: rat) < of_nat fs" by (simp only: of_nat_less_iff)
    moreover have "(of_nat (?k - 1) :: rat) = of_nat ?k - 1" using False by simp
    ultimately have "(of_nat ?k - 1) * of_nat C < (of_nat fs :: rat)" by simp
    then show ?thesis using c by (simp add: pos_less_divide_eq)
  qed
  show ?thesis using a b by (intro ceiling_unique [symmetric]) simp_all
qed

text \<open>
  C5. The APPEND loop over a file of \<open>fileSize\<close> bytes sends, on every run, the first
  requests of one fixed list, in its order, and when the server accepts every segment it
  succeeds and sends the whole list: exactly \<open>\<lceil>fileSize / 5 MiB\<rceil>\<close> requests, request
  \<open>i\<close> carrying segment index \<open>i\<close> (0, 1, 2, ... each once), starting at the byte
  offset that the earlier chunks add up to, and holding between 1 byte and 5 MiB. The
  bytes sent never exceed \<open>fileSize\<close> and equal it at the end.
\<close>

theorem appendLoop_segments:
  "(\<exists>n \<le> (fileSize + CHUNK_SIZE - 1) div CHUNK_SIZE.
      net (snd (appendLoop P mediaId token filePath fileSize 0 0 w)) =
        net w @ map (\<lambda>i. AppendRequest mediaId token filePath i (i * CHUNK_SIZE)
                            (min CHUNK_SIZE (fileSize - i * CHUNK_SIZE))) [0..<n]) \<and>
   ((\<forall>history req. \<exists>resp. fetch P history req = Inr resp \<and> ok resp) \<longrightarrow>
      fst (appendLoop P mediaId token filePath fileSize 0 0 w) = Inr () \<and>
      net (snd (appendLoop P mediaId token filePath fileSize 0 0 w)) =
        net w @ map (\<lambda>i. AppendRequest mediaId token filePath i (i * CHUNK_SIZE)
                            (min CHUNK_SIZE (fileSize - i * CHUNK_SIZE)))
                    [0..<(fileSize + CHUNK_SIZE - 1) div CHUNK_SIZE]) \<and>
   int ((fileSize + CHUNK_SIZE - 1) div CHUNK_SIZE) =
     \<lceil>(of_nat fileSize :: rat) / of_nat CHUNK_SIZE\<rceil> \<and>
   (\<forall>i < (fileSize + CHUNK_SIZE - 1) div CHUNK_SIZE.
      0 < min CHUNK_SIZE (fileSize - i * CHUNK_SIZE) \<and>
      min CHUNK_SIZE (fileSize - i * CHUNK_SIZE) \<le> CHUNK_SIZE \<and>
      (\<Sum>l<i. min CHUNK_SIZE (fileSize - l * CHUNK_SIZE)) = i * CHUNK_SIZE) \<and>
   (\<forall>j. (\<Sum>i<j. min CHUNK_SIZE (fileSize - i * CHUNK_SIZE)) \<le> fileSize) \<and>
   (\<Sum>i<(fileSize + CHUNK_SIZE - 1) div CHUNK_SIZE. min CHUNK_SIZE (fileSize - i * CHUNK_SIZE)) =
     fileSize"
proof -
  let ?k = "(fileSize + CHUNK_SIZE - 1) div CHUNK_SIZE"
  have pre: "\<exists>n \<le> ?k.
      net (snd (appendLoop P mediaId token filePath fileSize 0 0 w)) =
        net w @ map (\<lambda>i. AppendRequest mediaId token filePath i (i * CHUNK_SIZE)
                            (min CHUNK_SIZE (fileSize - i * CHUNK_SIZE))) [0..<n]"
    using appendLoop_prefix [of 0 fileSize P mediaId token filePath w] by auto
  have run: "(\<forall>history req. \<exists>resp. fetch P history req = Inr resp \<and> ok resp) \<longrightarrow>
    fst (appendLoop P mediaId token filePath fileSize 0 0 w) = Inr () \<and>
    net (snd (appendLoop P mediaId token filePath fileSize 0 0 w)) =
      net w @ map (\<lambda>i. AppendRequest mediaId token filePath i (i * CHUNK_SIZE)
                          (min CHUNK_SIZE (fileSize - i * CHUNK_SIZE))) [0..<?k]"
    using appendLoop_run [of P mediaId token filePath fileSize 0 w] by simp
  have each: "\<forall>i < ?k. 0 < min CHUNK_SIZE (fileSize - i * CHUNK_SIZE) \<and>
       min CHUNK_SIZE (fileSize - i * CHUNK_SIZE) \<le> CHUNK_SIZE \<and>
       (\<Sum>l<i. min CHUNK_SIZE (fileSize - l * CHUNK_SIZE)) = i * CHUNK_SIZE"
  proof (intro allI impI)
    fix i assume "i < ?k"
    then have "i * CHUNK_SIZE < fileSize"
      using segment_count_iff [OF CHUNK_SIZE_pos, of i fileSize] by simp
    then show "0 < min CHUNK_SIZE (fileSize - i * CHUNK_SIZE) \<and>
       min CHUNK_SIZE (fileSize - i * CHUNK_SIZE) \<le> CHUNK_SIZE \<and>
       (\<Sum>l<i. min CHUNK_SIZE (fileSize - l * CHUNK_SIZE)) = i * CHUNK_SIZE"
      using CHUNK_SIZE_pos by (simp add: chunk_sum)
  qed
  have "fileSize \<le> ?k * CHUNK_SIZE"
    using segment_count_iff [OF CHUNK_SIZE_pos, of ?k fileSize] by auto
  then have total: "(\<Sum>i<?k. min CHUNK_SIZE (fileSize - i * CHUNK_SIZE)) = fileSize"
    by (simp add: chunk_sum)
  have bound: "\<forall>j. (\<Sum>i<j. min CHUNK_SIZE (fileSize - i * CHUNK_SIZE)) \<le> fileSize"
    by (simp add: chunk_sum)
  from pre run each total bound segment_count_ceiling [OF CHUNK_SIZE_pos, of fileSize]
  show ?thesis by blast
qed

theorem appendLoop_segments_witness:
  "(\<forall>history req. \<exists>resp. fetch demoEnv history req = Inr resp \<and> ok resp) \<and>
   fst (appendLoop demoEnv ''m1'' ''token'' ''clip.mp4'' (20 * 1024 * 1024) 0 0 demoWorld) = Inr () \<and>
   net (snd (appendLoop demoEnv ''m1'' ''token'' ''clip.mp4'' (20 * 1024 * 1024) 0 0 demoWorld)) =
     [AppendRequest ''m1'' ''token'' ''clip.mp4'' 0 0 5242880,
      AppendRequest ''m1'' ''token'' ''clip.mp4'' 1 5242880 5242880,
      AppendRequest ''m1'' ''token'' ''clip.mp4'' 2 10485760 5242880,
      AppendRequest ''m1'' ''token'' ''clip.mp4'' 3 15728640 5242880]"
proof -
  have h: "\<forall>history req. \<exists>resp. fetch demoEnv history req = Inr resp \<and> ok resp"
    by (simp add: demoEnv_def)
  have k: "(20 * 1024 * 1024 + CHUNK_SIZE - 1) div CHUNK_SIZE = 4" by (simp add: CHUNK_SIZE_def)
  have u: "[0..<4] = [0, 1, 2, 3]" by (simp add: upt_rec)
  have n: "net demoWorld = []" by (simp add: demoWorld_def)
  note t = appendLoop_segments [of "20 * 1024 * 1024" demoEnv "''m1''" "''token''" "''clip.mp4''" demoWorld]
  have r1: "fst (appendLoop demoEnv ''m1'' ''token'' ''clip.mp4'' (20 * 1024 * 1024) 0 0 demoWorld) = Inr ()"
    using t h by blast
  have "net (snd (appendLoop demoEnv ''m1'' ''token'' ''clip.mp4'' (20 * 1024 * 1024) 0 0 demoWorld)) =
      net demoWorld @ map (\<lambda>i. AppendRequest ''m1'' ''token'' ''clip.mp4'' i (i * CHUNK_SIZE)
                          (min CHUNK_SIZE (20 * 1024 * 1024 - i * CHUNK_SIZE)))
                  [0..<(20 * 1024 * 1024 + CHUNK_SIZE - 1) div CHUNK_SIZE]"
    using t h by blast
  then have r2: "net (snd (appendLoop demoEnv ''m1'' ''token'' ''clip.mp4'' (20 * 1024 * 1024) 0 0 demoWorld)) =
     [AppendRequest ''m1'' ''token'' ''clip.mp4'' 0 0 5242880,
      AppendRequest ''m1'' ''token'' ''clip.mp4'' 1 5242880 5242880,
      AppendRequest ''m1'' ''token'' ''clip.mp4'' 2 10485760 5242880,
      AppendRequest ''m1'' ''token'' ''clip.mp4'' 3 15728640 5242880]"
    unfolding k u n by (simp add: CHUNK_SIZE_def)
  from h r1 r2 show ?thesis by blast
qed

section \<open>Polling for the end of processing\<close>


































section \<open>What a chunked upload leaves in the ledger\<close>

text \<open>
  The APPEND loop sends its segments with \<open>fetch\<close>, not through a method of the wrapped
  client: whatever the server answers, it leaves the ledger file as it found it.
\<close>

lemma appendLoop_frame:
  "usageFile (snd (appendLoop P mediaId token filePath fileSize segmentIndex bytesRead w)) =
     usageFile w"
proof (induction "fileSize - bytesRead" arbitrary: segmentIndex bytesRead w rule: less_induct)
  case less
  show ?case
  proof (cases "bytesRead < fileSize")
    case False
    then show ?thesis by (simp add: appendLoop_done)
  next
    case True
    let ?len = "min CHUNK_SIZE (fileSize - bytesRead)"
    let ?req = "AppendRequest mediaId token filePath segmentIndex bytesRead ?len"
    show ?thesis
    proof (cases "fetch P (net w) ?req")
      case (Inl e)
      then show ?thesis using True
        by (subst appendLoop.simps) (simp add: dispatch_def Let_def)
    next
      case (Inr resp)
      show ?thesis
      proof (cases "ok resp")
        case False
        then show ?thesis using True Inr
          by (subst appendLoop.simps) (simp add: dispatch_def Let_def)
      next
        case ok: True
        have "fileSize - (bytesRead + ?len) < fileSize - bytesRead"
          using True CHUNK_SIZE_pos by (simp add: min_def) arith
        from less.hyps [OF this]
        show ?thesis by (simp add: appendLoop_step [OF True Inr ok])
      qed
    qed
  qed
qed

lemma exp_cmp: "\<not> num_sub 1800003600000 60000 \<le> (1800000000000 :: rat)"
  by code_simp

lemma ext_mp4: "toLowerCase (path_extname demoEnv ''clip.mp4'') = ''.mp4''"
  by code_simp

lemma demo_getClient:
  "getClient demoEnv None demoWorld = (Inr (wrapClient demoEnv (sdkClient demoEnv)), demoWorld)"
  using exp_cmp
  by (simp add: getClient_def getAccount_def loadConfig_def migrateConfigIfNeeded_def
      demoWorld_def demoAccount_def falsy_def Let_def)

lemma demo_size: "statSize demoWorld ''clip.mp4'' = Some 20971520"
  by (simp add: demoWorld_def)

lemma demo_route:
  "uploadMedia demoEnv ''clip.mp4'' None demoWorld =
   chunkedUpload demoEnv (wrapClient demoEnv (sdkClient demoEnv)) ''clip.mp4'' ''video/mp4''
     ''tweet_video'' None demoWorld"
  unfolding uploadMedia_def ext_mp4 Let_def
  by (simp add: MIME_MAP_def CATEGORY_MAP_def SIZE_LIMITS_def demo_getClient demo_size)

text \<open>
  C1. The APPEND segments of a chunked upload do not pass through the call interceptor.
  Uploading a 20 MiB video with no budget configured succeeds with nine network
  operations (INIT, four APPEND segments, FINALIZE, three status queries), and the ledger
  receives five records, one for each method of the wrapped client and none for a
  segment.
\<close>

theorem append_segments_bypass_interceptor:
  "fst (uploadMedia demoEnv ''clip.mp4'' None demoWorld) = Inr ''m1'' \<and>
   net (snd (uploadMedia demoEnv ''clip.mp4'' None demoWorld)) =
     [SdkRequest ''media'' ''initializeUpload'' [Str ''video/mp4'', Str ''tweet_video'', Num 20971520],
      AppendRequest ''m1'' ''token'' ''clip.mp4'' 0 0 5242880,
      AppendRequest ''m1'' ''token'' ''clip.mp4'' 1 5242880 5242880,
      AppendRequest ''m1'' ''token'' ''clip.mp4'' 2 10485760 5242880,
      AppendRequest ''m1'' ''token'' ''clip.mp4'' 3 15728640 5242880,
      SdkRequest ''media'' ''finalizeUpload'' [Str ''m1''],
      statusRequest ''m1'', statusRequest ''m1'', statusRequest ''m1''] \<and>
   usageFile (snd (uploadMedia demoEnv ''clip.mp4'' None demoWorld)) =
     Some (concat (map (\<lambda>l. l @ [NL])
       [''media.initializeUpload'', ''media.finalizeUpload'', ''media.getUploadStatus'',
        ''media.getUploadStatus'', ''media.getUploadStatus'']))"
  unfolding demo_route
  by (simp add: demoWorld_def chunkedUpload_def wrapClient_def checkBudget_def loadBudget_def
      logApiCall_def sdkClient_def dispatch_def demoEnv_def demoSdk_def statusRequest_def
      getAccount_def loadConfig_def migrateConfigIfNeeded_def demoAccount_def Let_def
      waitForProcessing_def appendLoop.simps pollLoop.simps CHUNK_SIZE_def processingData_def sleep_def
      inferMethod_def METHOD_MAP_def)

end
